theory Spec2Isabelle
  imports Main "HOL-Library.Word"
begin

section \<open>Data model of the credential store\<close>

text \<open>
  Timestamps are JavaScript \<open>Date\<close> values: milliseconds since the epoch, as \<open>int\<close>.
  Every operation that reads the clock (\<open>new Date()\<close>) takes the value read as \<open>now\<close>.
  A table is the list of its rows in storage order; the position of a row stands for its
  primary key (the UUID \<open>id\<close> column), so an instance update is an update at a position.
\<close>

type_synonym time = int
type_synonym byte = "8 word"

text \<open>\<open>models/Otp.js\<close>, with the \<open>createdAt\<close> column that \<open>timestamps: true\<close> adds.\<close>

record otp_row =
  userId :: string
  otp :: string
  expiresAt :: time
  isUsed :: bool
  createdAt :: time

text \<open>\<open>models/RefreshToken.js\<close>; the \<open>token\<close> column is declared \<open>unique\<close>.\<close>

record refresh_row =
  token :: string
  rt_userId :: string
  rt_expiresAt :: time
  isRevoked :: bool

text \<open>
  The \<open>User\<close> model (\<open>sequelize.define('User', ...)\<close>): primary key \<open>id\<close>, \<open>roleId\<close>,
  \<open>username\<close>, \<open>email\<close>, \<open>password\<close> (the stored hash), nullable \<open>phone\<close> and \<open>isActive\<close>.
  The validators of the model are on \<open>username\<close>, \<open>email\<close> and \<open>phone\<close>, which no handler
  below writes.
\<close>

record user =
  user_id :: string
  username :: string
  email :: string
  password :: string
  phone :: "string option"
  roleId :: nat
  isActive :: bool

text \<open>The credential store: the three tables the authentication service works on. A
  transaction that is rolled back leaves the store as it was at \<open>beginTransaction\<close>.\<close>

record db =
  users :: "user list"
  refresh_tokens :: "refresh_row list"
  otps :: "otp_row list"

text \<open>\<open>this.userTypes\<close> of \<open>BaseController\<close>.\<close>

definition userTypes_admin :: nat where "userTypes_admin = 1"

definition userTypes_user :: nat where "userTypes_user = 2"

section \<open>BaseController: access tokens\<close>

text \<open>
  A signed token as \<open>jsonwebtoken\<close> produces it: the payload, the \<open>iat\<close> and \<open>exp\<close>
  claims (seconds since the epoch) and the key it was signed with. The two payload shapes
  are the ones this repository signs: \<open>{id, type, validationCheck}\<close> in \<open>generateToken\<close> and
  \<open>{userId, email, type: 'password_reset'}\<close> in \<open>generatePasswordResetToken\<close>.
\<close>

datatype jwt_payload =
    AccessPayload (jwt_id: string) (jwt_type: nat) (jwt_validationCheck: bool)
  | ResetPayload (jwt_userId: string) (jwt_email: string)

record jwt =
  payload :: jwt_payload
  iat :: int
  exp :: int
  signed_with :: string

text \<open>
  What the process gets from outside: the \<open>JWT_SECRET\<close> environment variable, which token
  (if any) a string received from a client is the serialisation of, the two \<open>bcrypt\<close>
  functions, and the offset of the server's time zone (ECMAScript's \<open>LocalTZA(t, isUTC)\<close>,
  in milliseconds, daylight saving included).
\<close>

record env =
  JWT_SECRET :: "string option"
  LocalTZA :: "time \<Rightarrow> bool \<Rightarrow> int"
  jwt_parse :: "string \<Rightarrow> jwt option"
  bcrypt_hash :: "string \<Rightarrow> string"
  bcrypt_compare :: "string \<Rightarrow> string \<Rightarrow> bool"

text \<open>
  \<open>Date\<close> arithmetic in local time, after ECMAScript: \<open>LocalTime(t) = t + LocalTZA(t, true)\<close>
  and \<open>UTC(t) = t - LocalTZA(t, false)\<close>. \<open>d.setMinutes(d.getMinutes() + m)\<close> and
  \<open>d.setDate(d.getDate() + n)\<close> add \<open>m\<close> minutes, \<open>n\<close> days, to the local time of \<open>d\<close> and
  convert back (\<open>MakeTime\<close> and \<open>MakeDay\<close> are linear in an out-of-range minute or day).
  Where the offset is constant both add exact milliseconds; across a change of daylight
  saving the result is off by the change.
\<close>

definition LocalTime :: "env \<Rightarrow> time \<Rightarrow> time" where
  "LocalTime env t = t + LocalTZA env t True"

definition UTC :: "env \<Rightarrow> time \<Rightarrow> time" where
  "UTC env t = t - LocalTZA env t False"

definition setMinutes_plus :: "env \<Rightarrow> time \<Rightarrow> int \<Rightarrow> time" where
  "setMinutes_plus env d m = UTC env (LocalTime env d + m * 60000)"

definition setDate_plus :: "env \<Rightarrow> time \<Rightarrow> int \<Rightarrow> time" where
  "setDate_plus env d n = UTC env (LocalTime env d + n * 86400000)"

text \<open>\<^verbatim>\<open>process.env.JWT_SECRET || 'your-secret-key'\<close>\<close>

definition secret :: "env \<Rightarrow> string" where
  "secret env = (case JWT_SECRET env of None \<Rightarrow> ''your-secret-key''
                 | Some k \<Rightarrow> if k = [] then ''your-secret-key'' else k)"

text \<open>
  The \<open>expiresIn\<close> option is a time span in the notation of the \<open>ms\<close> package. The spans
  the repository passes are decimal digits followed by one of the units \<open>d\<close>, \<open>h\<close>, \<open>m\<close>,
  \<open>s\<close>; these are read here, and any other string counts as one that \<open>jwt.sign\<close>
  rejects by throwing (\<open>None\<close>).
\<close>

definition is_digit :: "char \<Rightarrow> bool" where
  "is_digit c \<longleftrightarrow> (let n = of_char c :: nat in 48 \<le> n \<and> n \<le> 57)"

fun parse_dec :: "nat \<Rightarrow> string \<Rightarrow> nat" where
  "parse_dec acc [] = acc"
| "parse_dec acc (c # cs) = parse_dec (10 * acc + (of_char c - 48)) cs"

definition unit_seconds :: "string \<Rightarrow> nat option" where
  "unit_seconds u =
     (if u = ''s'' then Some 1 else if u = ''m'' then Some 60
      else if u = ''h'' then Some 3600 else if u = ''d'' then Some 86400 else None)"

definition timespan_seconds :: "string \<Rightarrow> nat option" where
  "timespan_seconds s =
     (let ds = takeWhile is_digit s; u = dropWhile is_digit s
      in if ds = [] then None
         else (case unit_seconds u of None \<Rightarrow> None | Some k \<Rightarrow> Some (parse_dec 0 ds * k)))"

text \<open>\<open>jwt.sign(payload, key, {expiresIn})\<close>: \<open>iat\<close> is the current time in whole seconds,
  \<open>exp\<close> is \<open>iat\<close> plus the span.\<close>

definition jwt_sign :: "jwt_payload \<Rightarrow> string \<Rightarrow> string \<Rightarrow> time \<Rightarrow> jwt option" where
  "jwt_sign p key expiresIn now =
     (case timespan_seconds expiresIn of
        None \<Rightarrow> None
      | Some secs \<Rightarrow> Some \<lparr>payload = p, iat = now div 1000, exp = now div 1000 + int secs,
                           signed_with = key\<rparr>)"

text \<open>\<open>generateToken(id, type, duration = '365d', validationCheck = false)\<close>; an argument
  that is left out is \<open>None\<close>.\<close>

definition generateToken :: "env \<Rightarrow> time \<Rightarrow> string \<Rightarrow> nat \<Rightarrow> string option \<Rightarrow> bool option \<Rightarrow> jwt option" where
  "generateToken env now uid ty duration validationCheck =
     jwt_sign (AccessPayload uid ty (case validationCheck of None \<Rightarrow> False | Some b \<Rightarrow> b))
       (secret env) (case duration of None \<Rightarrow> ''365d'' | Some d \<Rightarrow> d) now"

text \<open>\<open>verifyToken(token)\<close>: \<open>jwt.verify\<close> throws (\<open>None\<close>) on a string that is no token, on a
  wrong signature and on an expired token; otherwise it returns the payload.\<close>

definition verifyToken :: "env \<Rightarrow> time \<Rightarrow> string \<Rightarrow> jwt_payload option" where
  "verifyToken env now s =
     (case jwt_parse env s of
        None \<Rightarrow> None
      | Some tok \<Rightarrow> if signed_with tok = secret env \<and> now div 1000 < exp tok
                    then Some (payload tok) else None)"

text \<open>\<open>generatePasswordResetToken(userId, email, duration = '15m')\<close>\<close>

definition generatePasswordResetToken :: "env \<Rightarrow> time \<Rightarrow> string \<Rightarrow> string \<Rightarrow> string option \<Rightarrow> jwt option" where
  "generatePasswordResetToken env now uid mail duration =
     jwt_sign (ResetPayload uid mail) (secret env) (case duration of None \<Rightarrow> ''15m'' | Some d \<Rightarrow> d) now"

section \<open>BaseController: the OTP manager\<close>

subsection \<open>Generating the code\<close>

text \<open>
  \<open>createOtp\<close> draws \<open>crypto.randomBytes(3)\<close> and computes
  \<^verbatim>\<open>String(parseInt(buffer.toString('hex'), 16) % 1000000).padStart(6, '0')\<close>.
  The functions below are the JavaScript primitives of that expression.
\<close>

definition hex_digit :: "nat \<Rightarrow> char" where
  "hex_digit d = ''0123456789abcdef'' ! d"

definition byte_hex :: "byte \<Rightarrow> string" where
  "byte_hex b = [hex_digit (unat b div 16), hex_digit (unat b mod 16)]"

definition toString_hex :: "byte list \<Rightarrow> string" where
  "toString_hex buffer = concat (map byte_hex buffer)"

definition hex_value :: "char \<Rightarrow> nat option" where
  "hex_value c =
     (let n = of_char c :: nat in
      if 48 \<le> n \<and> n \<le> 57 then Some (n - 48)
      else if 97 \<le> n \<and> n \<le> 102 then Some (n - 87)
      else if 65 \<le> n \<and> n \<le> 70 then Some (n - 55)
      else None)"

text \<open>\<open>parseInt(s, 16)\<close> on a string without sign, blanks or \<open>0x\<close> prefix, as the hex string
  of a buffer is: it reads the longest prefix of hexadecimal digits; with no digit the
  result is \<open>NaN\<close> (\<open>None\<close>).\<close>

fun parse_hex_digits :: "nat \<Rightarrow> string \<Rightarrow> nat" where
  "parse_hex_digits acc [] = acc"
| "parse_hex_digits acc (c # cs) =
     (case hex_value c of None \<Rightarrow> acc | Some d \<Rightarrow> parse_hex_digits (16 * acc + d) cs)"

definition parseInt16 :: "string \<Rightarrow> nat option" where
  "parseInt16 s =
     (case s of [] \<Rightarrow> None
      | c # cs \<Rightarrow> (case hex_value c of None \<Rightarrow> None | Some d \<Rightarrow> Some (parse_hex_digits d cs)))"

definition dec_digit :: "nat \<Rightarrow> char" where
  "dec_digit d = ''0123456789'' ! d"

text \<open>\<open>String(n)\<close> for a non-negative integer: its decimal digits, no leading zero.\<close>

fun String_nat :: "nat \<Rightarrow> string" where
  "String_nat n = (if n < 10 then [dec_digit n] else String_nat (n div 10) @ [dec_digit (n mod 10)])"

declare String_nat.simps [simp del]

definition padStart :: "string \<Rightarrow> nat \<Rightarrow> char \<Rightarrow> string" where
  "padStart s n c = replicate (n - length s) c @ s"

text \<open>The code string of \<open>createOtp\<close> for the drawn buffer. \<open>parseInt\<close> of the hex string of
  a non-empty buffer is never \<open>NaN\<close>; for the empty buffer JavaScript yields the string
  \<open>NaN\<close> padded to \<open>000NaN\<close>.\<close>

definition otp_code :: "byte list \<Rightarrow> string" where
  "otp_code buffer =
     (case parseInt16 (toString_hex buffer) of
        None \<Rightarrow> padStart ''NaN'' 6 (CHR ''0'')
      | Some v \<Rightarrow> padStart (String_nat (v mod 1000000)) 6 (CHR ''0''))"

subsection \<open>Storing and verifying\<close>

text \<open>\<open>createOtp(userId, transaction, expiryMinutes = 5)\<close>: the expiry is the current date
  moved by \<open>setMinutes\<close>; the row is appended with \<open>isUsed = false\<close>. The default of the
  third parameter is the \<open>None\<close> case.\<close>

definition createOtp :: "env \<Rightarrow> otp_row list \<Rightarrow> time \<Rightarrow> byte list \<Rightarrow> string \<Rightarrow> nat option \<Rightarrow> string \<times> otp_row list" where
  "createOtp env t now buffer uid expiryMinutes =
     (let code = otp_code buffer;
          mins = (case expiryMinutes of None \<Rightarrow> 5 | Some m \<Rightarrow> m);
          row = \<lparr>userId = uid, otp = code, expiresAt = setMinutes_plus env now (int mins),
                 isUsed = False, createdAt = now\<rparr>
      in (code, t @ [row]))"

text \<open>
  \<open>Otp.findOne({where: {userId, otp, isUsed: false}, order: [['createdAt', 'DESC']]})\<close>:
  among the rows that satisfy the \<open>where\<close> clause, one with the greatest \<open>createdAt\<close>.
  SQL leaves the choice among rows of equal \<open>createdAt\<close> open; the model takes the one
  stored first.
\<close>

definition otp_where :: "string \<Rightarrow> string \<Rightarrow> otp_row \<Rightarrow> bool" where
  "otp_where uid code r \<longleftrightarrow> userId r = uid \<and> otp r = code \<and> \<not> isUsed r"

fun newest :: "(nat \<times> otp_row) list \<Rightarrow> (nat \<times> otp_row) option" where
  "newest [] = None"
| "newest (x # xs) =
     (case newest xs of
        None \<Rightarrow> Some x
      | Some y \<Rightarrow> if createdAt (snd x) < createdAt (snd y) then Some y else Some x)"

definition Otp_findOne :: "otp_row list \<Rightarrow> string \<Rightarrow> string \<Rightarrow> (nat \<times> otp_row) option" where
  "Otp_findOne t uid code = newest (filter (\<lambda>(i, r). otp_where uid code r) (enumerate 0 t))"

text \<open>\<open>verifyOtp(userId, otp, transaction)\<close> returns the verdict and the table after its
  updates.\<close>

definition verifyOtp :: "otp_row list \<Rightarrow> time \<Rightarrow> string \<Rightarrow> string \<Rightarrow> bool \<times> otp_row list" where
  "verifyOtp t now uid code =
     (case Otp_findOne t uid code of
        None \<Rightarrow> (False, t)
      | Some (i, otpRecord) \<Rightarrow>
          if now > expiresAt otpRecord then (False, t[i := otpRecord\<lparr>isUsed := True\<rparr>])
          else (True, t[i := otpRecord\<lparr>isUsed := True\<rparr>]))"

section \<open>BaseController: refresh tokens\<close>

text \<open>\<open>RefreshToken.create\<close>: the \<open>unique\<close> constraint on \<open>token\<close> rejects a second row with
  the same token (\<open>None\<close>: the insert throws).\<close>

definition RefreshToken_create :: "refresh_row list \<Rightarrow> refresh_row \<Rightarrow> refresh_row list option" where
  "RefreshToken_create t r = (if token r \<in> set (map token t) then None else Some (t @ [r]))"

text \<open>\<open>generateRefreshToken(userId, transaction, expiryDays = 7)\<close>: the token is the hex
  string of \<open>crypto.randomBytes(40)\<close>, here of the drawn \<open>buffer\<close>; the expiry is the
  current date moved by \<open>setDate\<close>.\<close>

definition generateRefreshToken :: "env \<Rightarrow> refresh_row list \<Rightarrow> time \<Rightarrow> byte list \<Rightarrow> string \<Rightarrow> nat option \<Rightarrow> (string \<times> refresh_row list) option" where
  "generateRefreshToken env t now buffer uid expiryDays =
     (let refreshTok = toString_hex buffer;
          days = (case expiryDays of None \<Rightarrow> 7 | Some d \<Rightarrow> d)
      in case RefreshToken_create t
                \<lparr>token = refreshTok, rt_userId = uid,
                 rt_expiresAt = setDate_plus env now (int days), isRevoked = False\<rparr> of
           None \<Rightarrow> None
         | Some t' \<Rightarrow> Some (refreshTok, t'))"

text \<open>\<open>verifyRefreshToken(token, transaction)\<close>: \<open>findOne\<close> without an order takes the first
  stored row that satisfies the \<open>where\<close> clause.\<close>

definition verifyRefreshToken :: "refresh_row list \<Rightarrow> time \<Rightarrow> string \<Rightarrow> refresh_row option" where
  "verifyRefreshToken t now tok =
     (case find (\<lambda>r. token r = tok \<and> \<not> isRevoked r) t of
        None \<Rightarrow> None
      | Some tokenDoc \<Rightarrow> if now > rt_expiresAt tokenDoc then None else Some tokenDoc)"

text \<open>\<open>revokeRefreshToken(token, transaction)\<close> looks the row up by token alone and updates
  that row.\<close>

fun findOne_index :: "('a \<Rightarrow> bool) \<Rightarrow> 'a list \<Rightarrow> nat option" where
  "findOne_index P [] = None"
| "findOne_index P (x # xs) = (if P x then Some 0 else map_option Suc (findOne_index P xs))"

definition revokeRefreshToken :: "refresh_row list \<Rightarrow> string \<Rightarrow> bool \<times> refresh_row list" where
  "revokeRefreshToken t tok =
     (case findOne_index (\<lambda>r. token r = tok) t of
        None \<Rightarrow> (False, t)
      | Some i \<Rightarrow> (True, t[i := (t ! i)\<lparr>isRevoked := True\<rparr>]))"

text \<open>\<open>revokeAllUserRefreshTokens(userId, transaction)\<close>: a bulk update of the unrevoked
  rows of the account; it returns the number of rows affected.\<close>

definition revokeAllUserRefreshTokens :: "refresh_row list \<Rightarrow> string \<Rightarrow> nat \<times> refresh_row list" where
  "revokeAllUserRefreshTokens t uid =
     (length (filter (\<lambda>r. rt_userId r = uid \<and> \<not> isRevoked r) t),
      map (\<lambda>r. if rt_userId r = uid \<and> \<not> isRevoked r then r\<lparr>isRevoked := True\<rparr> else r) t)"

section \<open>BaseController: request validation\<close>

text \<open>A field of \<open>req.body\<close> is a string or absent; \<open>!fields[field]\<close> holds for an absent
  field and for the empty string. \<open>validateFields\<close> gets the values of the required fields
  in order.\<close>

definition falsy :: "string option \<Rightarrow> bool" where
  "falsy v \<longleftrightarrow> (case v of None \<Rightarrow> True | Some s \<Rightarrow> s = [])"

fun validateFields :: "string option list \<Rightarrow> bool" where
  "validateFields [] = True"
| "validateFields (f # fs) = (if falsy f then False else validateFields fs)"

section \<open>The user service\<close>

text \<open>
  \<open>class UserAuthService\<close>. \<open>findUserByEmail\<close> and \<open>findUserById\<close> are
  \<open>User.findOne({where: {email}})\<close> and \<open>User.findOne({where: {id}})\<close>; the included role
  is not read by the handlers. \<open>verifyPassword\<close> is \<open>bcrypt.compare\<close>.
\<close>

definition findUserByEmail :: "user list \<Rightarrow> string \<Rightarrow> user option" where
  "findUserByEmail us mail = find (\<lambda>u. email u = mail) us"

definition findUserById :: "user list \<Rightarrow> string \<Rightarrow> user option" where
  "findUserById us uid = find (\<lambda>u. user_id u = uid) us"

definition verifyPassword :: "env \<Rightarrow> string \<Rightarrow> string \<Rightarrow> bool" where
  "verifyPassword env plainPassword hashedPassword = bcrypt_compare env plainPassword hashedPassword"

text \<open>
  \<open>updateUser(userId, updates, transaction)\<close>: \<open>User.findByPk\<close>; with no such user it throws
  \<open>User not found\<close> (\<open>None\<close>). A password among the updates is replaced by its hash when
  it is truthy, and the row found is updated. The updates the handlers below pass are
  \<open>{isActive: b}\<close> and \<open>{password: p}\<close>.
\<close>

datatype user_update = SetIsActive bool | SetPassword string

fun apply_update :: "env \<Rightarrow> user_update \<Rightarrow> user \<Rightarrow> user" where
  "apply_update env (SetIsActive b) u = u\<lparr>isActive := b\<rparr>"
| "apply_update env (SetPassword p) u =
     (if p = [] then u\<lparr>password := p\<rparr> else u\<lparr>password := bcrypt_hash env p\<rparr>)"

definition updateUser :: "env \<Rightarrow> user list \<Rightarrow> string \<Rightarrow> user_update \<Rightarrow> user list option" where
  "updateUser env us uid updates =
     (case findOne_index (\<lambda>u. user_id u = uid) us of
        None \<Rightarrow> None
      | Some i \<Rightarrow> Some (us[i := apply_update env updates (us ! i)]))"

section \<open>The user authentication controller\<close>

text \<open>
  A handler returns the response and the store it leaves. \<open>res.status(c).json(body)\<close> is
  \<open>Json c body\<close>; \<open>handleError(next, message, c)\<close> is \<open>Failure c message\<close>. Each handler
  runs in one transaction: a path that ends in \<open>rollback\<close> returns the store unchanged.
  \<open>sendOtpEmail\<close> catches its own errors and touches neither the store nor the response,
  so it does not appear.
\<close>

record user_view =
  v_id :: string
  v_username :: string
  v_email :: string
  v_isActive :: bool

record body =
  res_error :: bool
  res_message :: string
  res_accessToken :: "jwt option"
  res_refreshToken :: "string option"
  res_user :: "user_view option"
  res_requireVerification :: "bool option"

datatype response = Failure nat string | Json nat body

definition message_only :: "string \<Rightarrow> body" where
  "message_only m = \<lparr>res_error = False, res_message = m, res_accessToken = None,
     res_refreshToken = None, res_user = None, res_requireVerification = None\<rparr>"

text \<open>The messages of the errors a handler can catch: the unique constraint on a refresh
  token, \<open>jwt.sign\<close> rejecting its time span, and \<open>updateUser\<close> finding no user.\<close>

definition user_not_found :: string where
  "user_not_found = ''User not found''"

definition unique_violation :: string where
  "unique_violation = ''Validation error''"

definition sign_failure :: string where
  "sign_failure = ''\"expiresIn\" should be a number of seconds or string representing a timespan''"

definition verifyOTP :: "env \<Rightarrow> db \<Rightarrow> time \<Rightarrow> byte list \<Rightarrow> user \<Rightarrow> string option \<Rightarrow> response \<times> db" where
  "verifyOTP env s now buffer req_user body_otp =
     (if falsy body_otp then (Failure 400 ''OTP is required'', s)
      else case body_otp of
        None \<Rightarrow> (Failure 400 ''OTP is required'', s)
      | Some code \<Rightarrow>
          (case verifyOtp (otps s) now (user_id req_user) code of
             (isValid, otps') \<Rightarrow>
               if \<not> isValid then (Failure 400 ''Invalid or expired OTP'', s)
               else
                 (case updateUser env (users s) (user_id req_user) (SetIsActive True) of
                    None \<Rightarrow> (Failure 500 user_not_found, s)
                  | Some users' \<Rightarrow>
                 (case generateToken env now (user_id req_user) userTypes_user (Some ''1h'') None of
                    None \<Rightarrow> (Failure 500 sign_failure, s)
                  | Some accessTok \<Rightarrow>
                      (case generateRefreshToken env (refresh_tokens s) now buffer (user_id req_user) None of
                         None \<Rightarrow> (Failure 500 unique_violation, s)
                       | Some (refreshTok, rts') \<Rightarrow>
                           (Json 200
                              \<lparr>res_error = False,
                               res_message = ''OTP verification successful. Your account is now active.'',
                               res_accessToken = Some accessTok,
                               res_refreshToken = Some refreshTok,
                               res_user = Some \<lparr>v_id = user_id req_user, v_username = username req_user,
                                                 v_email = email req_user, v_isActive = True\<rparr>,
                               res_requireVerification = None\<rparr>,
                            \<lparr>users = users', refresh_tokens = rts', otps = otps'\<rparr>))))))"

definition login :: "env \<Rightarrow> db \<Rightarrow> time \<Rightarrow> byte list \<Rightarrow> byte list \<Rightarrow> string option \<Rightarrow> string option \<Rightarrow> response \<times> db" where
  "login env s now otp_buffer rt_buffer body_email body_password =
     (if \<not> validateFields [body_email, body_password]
      then (Failure 400 ''Email and password required'', s)
      else case (body_email, body_password) of
        (Some mail, Some pw) \<Rightarrow>
          (case findUserByEmail (users s) mail of
             None \<Rightarrow> (Failure 400 ''Invalid credentials'', s)
           | Some u \<Rightarrow>
               if \<not> verifyPassword env pw (password u) then (Failure 400 ''Invalid credentials'', s)
               else if \<not> isActive u then
                 (case createOtp env (otps s) now otp_buffer (user_id u) (Some 5) of
                    (code, otps') \<Rightarrow>
                      (case generateToken env now (user_id u) userTypes_user (Some ''1h'') None of
                         None \<Rightarrow> (Failure 500 sign_failure, s)
                       | Some accessTok \<Rightarrow>
                           (case generateRefreshToken env (refresh_tokens s) now rt_buffer (user_id u) None of
                              None \<Rightarrow> (Failure 500 unique_violation, s)
                            | Some (refreshTok, rts') \<Rightarrow>
                                (Json 200
                                   \<lparr>res_error = False,
                                    res_message = ''Account not activated. A verification OTP has been sent to your email.'',
                                    res_accessToken = Some accessTok,
                                    res_refreshToken = Some refreshTok,
                                    res_user = Some \<lparr>v_id = user_id u, v_username = username u,
                                                      v_email = email u, v_isActive = False\<rparr>,
                                    res_requireVerification = Some True\<rparr>,
                                 s\<lparr>refresh_tokens := rts', otps := otps'\<rparr>))))
               else
                 (case generateToken env now (user_id u) userTypes_user (Some ''1h'') None of
                    None \<Rightarrow> (Failure 500 sign_failure, s)
                  | Some accessTok \<Rightarrow>
                      (case generateRefreshToken env (refresh_tokens s) now rt_buffer (user_id u) None of
                         None \<Rightarrow> (Failure 500 unique_violation, s)
                       | Some (refreshTok, rts') \<Rightarrow>
                           (Json 200
                              \<lparr>res_error = False,
                               res_message = ''Login successful'',
                               res_accessToken = Some accessTok,
                               res_refreshToken = Some refreshTok,
                               res_user = Some \<lparr>v_id = user_id u, v_username = username u,
                                                 v_email = email u, v_isActive = isActive u\<rparr>,
                               res_requireVerification = None\<rparr>,
                            s\<lparr>refresh_tokens := rts'\<rparr>))))
      | _ \<Rightarrow> (Failure 400 ''Email and password required'', s))"

definition resetPassword :: "env \<Rightarrow> db \<Rightarrow> time \<Rightarrow> string option \<Rightarrow> string option \<Rightarrow> response \<times> db" where
  "resetPassword env s now body_token body_newPassword =
     (if \<not> validateFields [body_token, body_newPassword]
      then (Failure 400 ''Token and new password required'', s)
      else case (body_token, body_newPassword) of
        (Some tok, Some newPassword) \<Rightarrow>
          (case verifyToken env now tok of
             None \<Rightarrow> (Failure 400 ''Invalid or expired token'', s)
           | Some (AccessPayload uid ty vc) \<Rightarrow> (Failure 400 ''Invalid or expired token'', s)
           | Some (ResetPayload uid mail) \<Rightarrow>
               (case findUserById (users s) uid of
                  None \<Rightarrow> (Failure 400 ''Invalid token'', s)
                | Some u \<Rightarrow>
                    if email u \<noteq> mail then (Failure 400 ''Invalid token'', s)
                    else
                      (case updateUser env (users s) uid (SetPassword newPassword) of
                         None \<Rightarrow> (Failure 500 user_not_found, s)
                       | Some users' \<Rightarrow>
                           (Json 200 (message_only ''Password reset successful''),
                            s\<lparr>users := users',
                              refresh_tokens := snd (revokeAllUserRefreshTokens (refresh_tokens s) uid)\<rparr>))))
      | _ \<Rightarrow> (Failure 400 ''Token and new password required'', s))"

definition logout :: "db \<Rightarrow> user \<Rightarrow> string option \<Rightarrow> response \<times> db" where
  "logout s req_user body_refreshToken =
     (case body_refreshToken of
        None \<Rightarrow>
          (Json 200 (message_only ''Logout successful''),
           s\<lparr>refresh_tokens := snd (revokeAllUserRefreshTokens (refresh_tokens s) (user_id req_user))\<rparr>)
      | Some tok \<Rightarrow>
          if tok = [] then
            (Json 200 (message_only ''Logout successful''),
             s\<lparr>refresh_tokens := snd (revokeAllUserRefreshTokens (refresh_tokens s) (user_id req_user))\<rparr>)
          else
            (Json 200 (message_only ''Logout successful''),
             s\<lparr>refresh_tokens := snd (revokeRefreshToken (refresh_tokens s) tok)\<rparr>))"

definition refreshToken :: "env \<Rightarrow> db \<Rightarrow> time \<Rightarrow> byte list \<Rightarrow> string option \<Rightarrow> response \<times> db" where
  "refreshToken env s now buffer body_refreshToken =
     (if falsy body_refreshToken then (Failure 400 ''Refresh token required'', s)
      else case body_refreshToken of
        None \<Rightarrow> (Failure 400 ''Refresh token required'', s)
      | Some tok \<Rightarrow>
          (case verifyRefreshToken (refresh_tokens s) now tok of
             None \<Rightarrow> (Failure 401 ''Invalid or expired refresh token'', s)
           | Some tokenDoc \<Rightarrow>
               (case findUserById (users s) (rt_userId tokenDoc) of
                  None \<Rightarrow> (Failure 401 ''User not found or inactive'', s)
                | Some u \<Rightarrow>
                    if roleId u \<noteq> userTypes_user \<or> \<not> isActive u
                    then (Failure 401 ''User not found or inactive'', s)
                    else
                      (case generateToken env now (user_id u) userTypes_user (Some ''1h'') None of
                         None \<Rightarrow> (Failure 500 sign_failure, s)
                       | Some accessTok \<Rightarrow>
                           (case generateRefreshToken env (snd (revokeRefreshToken (refresh_tokens s) tok))
                                   now buffer (user_id u) None of
                              None \<Rightarrow> (Failure 500 unique_violation, s)
                            | Some (newRefreshToken, rts') \<Rightarrow>
                                (Json 200
                                   \<lparr>res_error = False, res_message = ''Token refreshed'',
                                    res_accessToken = Some accessTok,
                                    res_refreshToken = Some newRefreshToken,
                                    res_user = None, res_requireVerification = None\<rparr>,
                                 s\<lparr>refresh_tokens := rts'\<rparr>))))))"

definition updatePassword :: "env \<Rightarrow> db \<Rightarrow> user \<Rightarrow> string option \<Rightarrow> string option \<Rightarrow> response \<times> db" where
  "updatePassword env s req_user body_currentPassword body_newPassword =
     (if \<not> validateFields [body_currentPassword, body_newPassword]
      then (Failure 400 ''Current and new password required'', s)
      else case (body_currentPassword, body_newPassword) of
        (Some currentPassword, Some newPassword) \<Rightarrow>
          if \<not> verifyPassword env currentPassword (password req_user)
          then (Failure 400 ''Current password is incorrect'', s)
          else
            (case updateUser env (users s) (user_id req_user) (SetPassword newPassword) of
               None \<Rightarrow> (Failure 500 user_not_found, s)
             | Some users' \<Rightarrow>
                 (Json 200 (message_only ''Password updated successfully''), s\<lparr>users := users'\<rparr>))
      | _ \<Rightarrow> (Failure 400 ''Current and new password required'', s))"

section \<open>Notions used to state the properties\<close>

text \<open>A client submitting the same code repeatedly: the verdicts of successive
  \<open>verifyOtp\<close> calls, each on the table the previous call left.\<close>

fun verifyOtp_seq :: "otp_row list \<Rightarrow> string \<Rightarrow> string \<Rightarrow> time list \<Rightarrow> bool list" where
  "verifyOtp_seq t uid code [] = []"
| "verifyOtp_seq t uid code (now # nows) =
     (case verifyOtp t now uid code of (ok, t') \<Rightarrow> ok # verifyOtp_seq t' uid code nows)"

text \<open>
  The specification's wording of the same operation, for comparison: fetch the most recent
  unused OTP of the account (no condition on the code); absent: fail; expired: fail;
  otherwise succeed exactly when the code matches.
\<close>

definition spec_latest_unused :: "otp_row list \<Rightarrow> string \<Rightarrow> (nat \<times> otp_row) option" where
  "spec_latest_unused t uid =
     newest (filter (\<lambda>(i, r). userId r = uid \<and> \<not> isUsed r) (enumerate 0 t))"

definition spec_verifyOtp :: "otp_row list \<Rightarrow> time \<Rightarrow> string \<Rightarrow> string \<Rightarrow> bool" where
  "spec_verifyOtp t now uid code =
     (case spec_latest_unused t uid of
        None \<Rightarrow> False
      | Some (i, r) \<Rightarrow> \<not> now > expiresAt r \<and> otp r = code)"

text \<open>The lifetime of a token, in seconds.\<close>

definition ttl :: "jwt \<Rightarrow> int" where
  "ttl tok = exp tok - iat tok"

text \<open>
  The value \<open>parseInt\<close> reads from a buffer's hex string (big-endian) and the three
  bytes of a value below \<open>2 ^ 24\<close>, the six-character code of a number, and the number of
  three-byte draws for which \<open>createOtp\<close> produces a given code.
\<close>

definition buffer_value :: "byte list \<Rightarrow> nat" where
  "buffer_value buffer = foldl (\<lambda>acc b. 256 * acc + unat b) 0 buffer"

definition buffer_of :: "nat \<Rightarrow> byte list" where
  "buffer_of v = [of_nat (v div 65536), of_nat (v div 256 mod 256), of_nat (v mod 256)]"

definition pad6 :: "nat \<Rightarrow> string" where
  "pad6 c = padStart (String_nat c) 6 (CHR ''0'')"

definition otp_count :: "string \<Rightarrow> nat" where
  "otp_count s = card {buffer. length buffer = 3 \<and> otp_code buffer = s}"

text \<open>
  The three functions of \<open>BaseController\<close> that write the refresh token table, as
  operations, and the table after a sequence of them. A \<open>create\<close> that fails leaves the
  table as it was. The controllers write this table through these three functions only.
\<close>

datatype rt_op =
    Generate time "byte list" string "nat option"
  | Revoke string
  | RevokeAll string

fun rt_apply :: "env \<Rightarrow> refresh_row list \<Rightarrow> rt_op \<Rightarrow> refresh_row list" where
  "rt_apply env t (Generate now buffer uid days) =
     (case generateRefreshToken env t now buffer uid days of None \<Rightarrow> t | Some (tok, t') \<Rightarrow> t')"
| "rt_apply env t (Revoke tok) = snd (revokeRefreshToken t tok)"
| "rt_apply env t (RevokeAll uid) = snd (revokeAllUserRefreshTokens t uid)"

definition rt_run :: "env \<Rightarrow> refresh_row list \<Rightarrow> rt_op list \<Rightarrow> refresh_row list" where
  "rt_run env t ops = foldl (rt_apply env) t ops"

text \<open>A token string is dead in a table when it is stored there and every row that carries
  it is revoked.\<close>

definition dead :: "string \<Rightarrow> refresh_row list \<Rightarrow> bool" where
  "dead tok t \<longleftrightarrow> tok \<in> token ` set t \<and> (\<forall>r \<in> set t. token r = tok \<longrightarrow> isRevoked r)"

text \<open>A later store: the refresh token table after further table operations, with any
  users and OTP tables.\<close>

definition later_store :: "env \<Rightarrow> db \<Rightarrow> rt_op list \<Rightarrow> user list \<Rightarrow> otp_row list \<Rightarrow> db" where
  "later_store env s ops us os =
     \<lparr>users = us, refresh_tokens = rt_run env (refresh_tokens s) ops, otps = os\<rparr>"

section \<open>Example stores\<close>

definition one_code :: "otp_row list" where
  "one_code =
     [\<lparr>userId = ''u1'', otp = ''123456'', expiresAt = 300000, isUsed = False, createdAt = 0\<rparr>]"

text \<open>An account that signed up at time 0 and logged in, still inactive, a minute later:
  both codes are outstanding.\<close>

definition two_codes :: "otp_row list" where
  "two_codes =
     [\<lparr>userId = ''u1'', otp = ''111111'', expiresAt = 300000, isUsed = False, createdAt = 0\<rparr>,
      \<lparr>userId = ''u1'', otp = ''222222'', expiresAt = 360000, isUsed = False, createdAt = 60000\<rparr>]"

text \<open>An environment without \<open>JWT_SECRET\<close>, on a server in UTC, in which one string is a
  reset token for ana, and a store with an active account holding two refresh tokens and
  an inactive account.\<close>

definition env0 :: env where
  "env0 = \<lparr>JWT_SECRET = None,
           LocalTZA = (\<lambda>t isUTC. 0),
           jwt_parse = (\<lambda>s. if s = ''reset-link-token''
                              then Some \<lparr>payload = ResetPayload ''u1'' ''a@x.com'', iat = 0, exp = 900,
                                         signed_with = ''your-secret-key''\<rparr>
                              else None),
           bcrypt_hash = (\<lambda>p. ''$2b$'' @ p),
           bcrypt_compare = (\<lambda>p h. h = ''$2b$'' @ p)\<rparr>"

definition ana :: user where
  "ana = \<lparr>user_id = ''u1'', username = ''ana'', email = ''a@x.com'', password = ''$2b$secret1'',
          phone = None, roleId = 2, isActive = True\<rparr>"

definition bob :: user where
  "bob = \<lparr>user_id = ''u2'', username = ''bob'', email = ''b@x.com'', password = ''$2b$hunter2'',
          phone = None, roleId = 2, isActive = False\<rparr>"

definition db0 :: db where
  "db0 = \<lparr>users = [ana, bob],
          refresh_tokens =
            [\<lparr>token = ''aa01'', rt_userId = ''u1'', rt_expiresAt = 604800000, isRevoked = False\<rparr>,
             \<lparr>token = ''bb02'', rt_userId = ''u1'', rt_expiresAt = 604800000, isRevoked = False\<rparr>],
          otps = []\<rparr>"

text \<open>The inactive account with one code, issued at time 0 and expired at 300000.\<close>

definition db_expired :: db where
  "db_expired = \<lparr>users = [ana, bob], refresh_tokens = [],
     otps = [\<lparr>userId = ''u2'', otp = ''123456'', expiresAt = 300000, isUsed = False,
              createdAt = 0\<rparr>]\<rparr>"

text \<open>Forty bytes, and a store in which their hex string is already a refresh token.\<close>

definition drawn :: "byte list" where
  "drawn = replicate 40 171"

definition db_collide :: db where
  "db_collide = \<lparr>users = [ana, bob],
     refresh_tokens = [\<lparr>token = toString_hex drawn, rt_userId = ''u1'',
                        rt_expiresAt = 604800000, isRevoked = False\<rparr>],
     otps = []\<rparr>"

section \<open>Properties of the OTP manager\<close>

lemma newest_mem: "newest xs = Some x \<Longrightarrow> x \<in> set xs"
  by (induction xs arbitrary: x) (auto split: option.splits if_splits)

lemma newest_None: "newest xs = None \<longleftrightarrow> xs = []"
  by (cases xs) (auto split: option.splits)

lemma newest_max: "newest xs = Some x \<Longrightarrow> y \<in> set xs \<Longrightarrow> createdAt (snd y) \<le> createdAt (snd x)"
proof (induction xs arbitrary: x)
  case Nil
  then show ?case by simp
next
  case (Cons a xs)
  show ?case
  proof (cases "newest xs")
    case None
    then have "xs = []" by (simp add: newest_None)
    with Cons.prems show ?thesis by simp
  next
    case (Some z)
    have le: "y \<in> set xs \<Longrightarrow> createdAt (snd y) \<le> createdAt (snd z)"
      using Cons.IH [OF Some] .
    from Cons.prems(2) have "y = a \<or> y \<in> set xs" by simp
    with Cons.prems(1) Some le show ?thesis
      by (auto split: if_splits)
  qed
qed

lemma Otp_findOne_Some:
  assumes "Otp_findOne t uid code = Some (i, r)"
  shows "i < length t" and "t ! i = r" and "otp_where uid code r"
    and "\<And>j. j < length t \<Longrightarrow> otp_where uid code (t ! j) \<Longrightarrow> createdAt (t ! j) \<le> createdAt r"
proof -
  let ?c = "filter (\<lambda>(i, r). otp_where uid code r) (enumerate 0 t)"
  from assms have m: "(i, r) \<in> set ?c" unfolding Otp_findOne_def by (rule newest_mem)
  then show "i < length t" "t ! i = r" "otp_where uid code r"
    by (auto simp: in_set_enumerate_eq)
  fix j assume "j < length t" "otp_where uid code (t ! j)"
  then have "(j, t ! j) \<in> set ?c" by (auto simp: in_set_enumerate_eq)
  with assms show "createdAt (t ! j) \<le> createdAt r"
    unfolding Otp_findOne_def using newest_max by fastforce
qed

lemma Otp_findOne_None:
  "Otp_findOne t uid code = None \<longleftrightarrow> (\<forall>r \<in> set t. \<not> otp_where uid code r)"
proof -
  have "set (filter (\<lambda>(i, r). otp_where uid code r) (enumerate 0 t)) = {}
        \<longleftrightarrow> (\<forall>r \<in> set t. \<not> otp_where uid code r)"
  proof
    assume e: "set (filter (\<lambda>(i, r). otp_where uid code r) (enumerate 0 t)) = {}"
    show "\<forall>r \<in> set t. \<not> otp_where uid code r"
    proof
      fix r assume "r \<in> set t"
      then obtain j where j: "j < length t" "t ! j = r" by (auto simp: in_set_conv_nth)
      then have "(j, r) \<in> set (enumerate 0 t)" by (simp add: in_set_enumerate_eq)
      with e show "\<not> otp_where uid code r" by auto
    qed
  next
    assume "\<forall>r \<in> set t. \<not> otp_where uid code r"
    then show "set (filter (\<lambda>(i, r). otp_where uid code r) (enumerate 0 t)) = {}"
      by (auto simp: in_set_enumerate_eq)
  qed
  then show ?thesis by (simp only: Otp_findOne_def newest_None set_empty)
qed

lemma verifyOtp_True_iff:
  "fst (verifyOtp t now uid code) \<longleftrightarrow> (\<exists>i r. Otp_findOne t uid code = Some (i, r) \<and> now \<le> expiresAt r)"
  by (auto simp: verifyOtp_def split: option.splits)

lemma Otp_findOne_strict:
  assumes "i < length t" "otp_where uid code (t ! i)"
    and "\<forall>j<length t. j \<noteq> i \<and> otp_where uid code (t ! j) \<longrightarrow> createdAt (t ! j) < createdAt (t ! i)"
  shows "Otp_findOne t uid code = Some (i, t ! i)"
proof (cases "Otp_findOne t uid code")
  case None
  with assms(1,2) show ?thesis by (auto simp: Otp_findOne_None)
next
  case (Some p)
  obtain k r where p: "p = (k, r)" by (cases p)
  note f = Otp_findOne_Some [OF Some [unfolded p]]
  have "k = i"
  proof (rule ccontr)
    assume "k \<noteq> i"
    with assms(3) f(1,2,3) have "createdAt r < createdAt (t ! i)" by auto
    moreover from f(4) [OF assms(1,2)] have "createdAt (t ! i) \<le> createdAt r" .
    ultimately show False by simp
  qed
  with f(2) Some p show ?thesis by simp
qed

lemma verifyOtp_no_match:
  "\<forall>r \<in> set t. \<not> otp_where uid code r \<Longrightarrow> verifyOtp t now uid code = (False, t)"
  by (simp add: verifyOtp_def Otp_findOne_None [THEN iffD2])

lemma verifyOtp_seq_no_match:
  "\<forall>r \<in> set t. \<not> otp_where uid code r \<Longrightarrow> verifyOtp_seq t uid code nows = replicate (length nows) False"
  by (induction nows) (simp_all add: verifyOtp_no_match)

lemma Otp_findOne_only:
  assumes "i < length t" "otp_where uid code (t ! i)"
    and "\<forall>j<length t. j \<noteq> i \<longrightarrow> \<not> otp_where uid code (t ! j)"
  shows "Otp_findOne t uid code = Some (i, t ! i)"
  using assms by (intro Otp_findOne_strict) auto

lemma burnt_no_match:
  assumes "i < length t"
    and "\<forall>j<length t. j \<noteq> i \<longrightarrow> \<not> otp_where uid code (t ! j)"
  shows "\<forall>r \<in> set (t[i := (t ! i)\<lparr>isUsed := True\<rparr>]). \<not> otp_where uid code r"
proof
  fix r assume "r \<in> set (t[i := (t ! i)\<lparr>isUsed := True\<rparr>])"
  then obtain j where j: "j < length t" "r = t[i := (t ! i)\<lparr>isUsed := True\<rparr>] ! j"
    by (auto simp: in_set_conv_nth)
  show "\<not> otp_where uid code r"
  proof (cases "j = i")
    case True
    with j assms(1) show ?thesis by (simp add: otp_where_def)
  next
    case False
    with j assms(2) show ?thesis by simp
  qed
qed

subsection \<open>Which row verification looks at\<close>

text \<open>
  Claim C1, as stated: verification is scoped to the most recently created unused row of
  the account, so an older unused row whose code matches is not accepted. The query of
  \<open>verifyOtp\<close> filters on the submitted code before ordering: with two outstanding codes
  the older one is still accepted although the specification's reading rejects it.
\<close>

theorem C1_older_code_accepted:
  "fst (verifyOtp two_codes 120000 ''u1'' ''111111'') \<and> \<not> spec_verifyOtp two_codes 120000 ''u1'' ''111111''"
  by (simp add: verifyOtp_def Otp_findOne_def spec_verifyOtp_def spec_latest_unused_def two_codes_def otp_where_def)

text \<open>
  Claim C1, amended: \<open>verifyOtp\<close> succeeds only if the account has an unused row carrying
  the submitted code, and a most recently created row among those is unexpired; it
  does succeed when the strictly newest such row is unexpired.
\<close>

theorem C1_verifyOtp_newest_matching:
  "(fst (verifyOtp t now uid code) \<longrightarrow>
      (\<exists>i<length t. otp_where uid code (t ! i) \<and> now \<le> expiresAt (t ! i) \<and>
         (\<forall>j<length t. otp_where uid code (t ! j) \<longrightarrow> createdAt (t ! j) \<le> createdAt (t ! i))))
   \<and> ((\<exists>i<length t. otp_where uid code (t ! i) \<and> now \<le> expiresAt (t ! i) \<and>
         (\<forall>j<length t. j \<noteq> i \<and> otp_where uid code (t ! j) \<longrightarrow> createdAt (t ! j) < createdAt (t ! i)))
       \<longrightarrow> fst (verifyOtp t now uid code))"
proof (intro conjI impI)
  assume "fst (verifyOtp t now uid code)"
  then obtain i r where f: "Otp_findOne t uid code = Some (i, r)" and e: "now \<le> expiresAt r"
    by (auto simp: verifyOtp_True_iff)
  from Otp_findOne_Some [OF f] e
  show "\<exists>i<length t. otp_where uid code (t ! i) \<and> now \<le> expiresAt (t ! i) \<and>
         (\<forall>j<length t. otp_where uid code (t ! j) \<longrightarrow> createdAt (t ! j) \<le> createdAt (t ! i))"
    by (intro exI [of _ i]) auto
next
  assume "\<exists>i<length t. otp_where uid code (t ! i) \<and> now \<le> expiresAt (t ! i) \<and>
         (\<forall>j<length t. j \<noteq> i \<and> otp_where uid code (t ! j) \<longrightarrow> createdAt (t ! j) < createdAt (t ! i))"
  then obtain i where i: "i < length t" "otp_where uid code (t ! i)" "now \<le> expiresAt (t ! i)"
    "\<forall>j<length t. j \<noteq> i \<and> otp_where uid code (t ! j) \<longrightarrow> createdAt (t ! j) < createdAt (t ! i)"
    by blast
  from Otp_findOne_strict [OF i(1,2,4)] i(3) show "fst (verifyOtp t now uid code)"
    by (simp add: verifyOtp_True_iff)
qed

theorem C1_verifyOtp_newest_matching_witness:
  "fst (verifyOtp two_codes 120000 ''u1'' ''222222'') \<and> fst (verifyOtp two_codes 120000 ''u1'' ''111111'')"
proof -
  have "fst (verifyOtp two_codes 120000 ''u1'' ''222222'')"
    by (rule C1_verifyOtp_newest_matching [THEN conjunct2, rule_format], rule exI [of _ 1])
       (simp add: two_codes_def otp_where_def nth_Cons' less_Suc_eq)
  moreover have "fst (verifyOtp two_codes 120000 ''u1'' ''111111'')"
    by (rule C1_verifyOtp_newest_matching [THEN conjunct2, rule_format], rule exI [of _ 0])
       (simp add: two_codes_def otp_where_def nth_Cons' less_Suc_eq)
  ultimately show ?thesis by (rule conjI)
qed

subsection \<open>Single use, expiry and mismatch\<close>

text \<open>
  Claim C3: for an account with a single unused, unexpired OTP row, \<open>verifyOtp\<close> with the
  matching code succeeds and marks the row used, and every subsequent call with the same
  code fails.
\<close>

theorem C3_otp_accepted_once:
  assumes "i < length t" and "userId (t ! i) = uid" and "otp (t ! i) = code"
    and "\<not> isUsed (t ! i)" and "now \<le> expiresAt (t ! i)"
    and "\<forall>j<length t. j \<noteq> i \<and> userId (t ! j) = uid \<longrightarrow> isUsed (t ! j)"
  shows "verifyOtp t now uid code = (True, t[i := (t ! i)\<lparr>isUsed := True\<rparr>])
    \<and> verifyOtp_seq t uid code (now # nows) = True # replicate (length nows) False"
proof -
  have w: "otp_where uid code (t ! i)" using assms(2-4) by (simp add: otp_where_def)
  have o: "\<forall>j<length t. j \<noteq> i \<longrightarrow> \<not> otp_where uid code (t ! j)"
    using assms(6) by (auto simp: otp_where_def)
  have f: "Otp_findOne t uid code = Some (i, t ! i)"
    by (rule Otp_findOne_only [OF assms(1) w o])
  have v: "verifyOtp t now uid code = (True, t[i := (t ! i)\<lparr>isUsed := True\<rparr>])"
    using f assms(5) by (simp add: verifyOtp_def)
  from burnt_no_match [OF assms(1) o]
  have "verifyOtp_seq (t[i := (t ! i)\<lparr>isUsed := True\<rparr>]) uid code nows = replicate (length nows) False"
    by (rule verifyOtp_seq_no_match)
  with v show ?thesis by simp
qed

theorem C3_otp_accepted_once_witness:
  "verifyOtp one_code 1000 ''u1'' ''123456'' = (True, one_code[0 := (one_code ! 0)\<lparr>isUsed := True\<rparr>])
   \<and> verifyOtp_seq one_code ''u1'' ''123456'' (1000 # [2000, 3000]) = True # replicate (length [2000, 3000 :: int]) False"
  by (rule C3_otp_accepted_once) (simp_all add: one_code_def)

text \<open>
  The function \<open>verifyOtp\<close> by itself, on the table it returns: when the account's row for
  the submitted code is unused but past its expiry, it marks that row used and fails, and
  on the table so changed every further call with the same code fails.
\<close>

lemma verifyOtp_burns_expired:
  assumes "i < length t" and "otp_where uid code (t ! i)" and "expiresAt (t ! i) < now"
    and "\<forall>j<length t. j \<noteq> i \<longrightarrow> \<not> otp_where uid code (t ! j)"
  shows "verifyOtp t now uid code = (False, t[i := (t ! i)\<lparr>isUsed := True\<rparr>])
    \<and> verifyOtp_seq t uid code (now # nows) = replicate (Suc (length nows)) False"
proof -
  have f: "Otp_findOne t uid code = Some (i, t ! i)"
    by (rule Otp_findOne_only [OF assms(1,2,4)])
  have v: "verifyOtp t now uid code = (False, t[i := (t ! i)\<lparr>isUsed := True\<rparr>])"
    using f assms(3) by (simp add: verifyOtp_def)
  from burnt_no_match [OF assms(1,4)]
  have "verifyOtp_seq (t[i := (t ! i)\<lparr>isUsed := True\<rparr>]) uid code nows = replicate (length nows) False"
    by (rule verifyOtp_seq_no_match)
  with v show ?thesis by simp
qed

lemma verifyOtp_other_codes_untouched:
  assumes "j < length t" and "otp (t ! j) \<noteq> code"
  shows "snd (verifyOtp t now uid code) ! j = t ! j"
proof (cases "Otp_findOne t uid code")
  case None
  then show ?thesis by (simp add: verifyOtp_def)
next
  case (Some p)
  obtain i r where p: "p = (i, r)" by (cases p)
  from Otp_findOne_Some [OF Some [unfolded p]] have "t ! i = r" "otp_where uid code r" by simp_all
  with assms(2) have "i \<noteq> j" by (auto simp: otp_where_def)
  with Some p show ?thesis by (simp add: verifyOtp_def)
qed




section \<open>Properties of the access tokens\<close>

lemma timespan_365d: "timespan_seconds ''365d'' = Some 31536000"
  by (simp add: timespan_seconds_def is_digit_def unit_seconds_def)

lemma timespan_1h: "timespan_seconds ''1h'' = Some 3600"
  by (simp add: timespan_seconds_def is_digit_def unit_seconds_def)

lemma timespan_15m: "timespan_seconds ''15m'' = Some 900"
  by (simp add: timespan_seconds_def is_digit_def unit_seconds_def)

text \<open>
  Claim C8, as stated: with no ttl argument the issued access token expires one hour after
  issuance. The default of \<open>generateToken\<close> is \<open>'365d'\<close>: a token issued without a duration
  does not live 3600 seconds.
\<close>

theorem C8_default_ttl_not_one_hour:
  "map_option ttl (generateToken env0 0 ''u1'' userTypes_user None None) \<noteq> Some 3600"
  by (simp add: generateToken_def jwt_sign_def timespan_365d ttl_def)

text \<open>
  Claim C8, amended: the default time-to-live of \<open>generateToken\<close> is 365 days; called with
  the duration \<open>'1h'\<close>, as every call in the controllers does, the token expires one hour
  after issuance.
\<close>

theorem C8_default_ttl_365_days:
  "map_option ttl (generateToken env now uid ty None vc) = Some (365 * 86400)
   \<and> map_option ttl (generateToken env now uid ty (Some ''1h'') vc) = Some 3600"
  by (simp add: generateToken_def jwt_sign_def timespan_365d timespan_1h ttl_def)

section \<open>Properties of the code generation\<close>

lemma hex_value_hex_digit: "d < 16 \<Longrightarrow> hex_value (hex_digit d) = Some d"
proof -
  assume "d < 16"
  then consider "d = 0" | "d = 1" | "d = 2" | "d = 3" | "d = 4" | "d = 5" | "d = 6" | "d = 7"
    | "d = 8" | "d = 9" | "d = 10" | "d = 11" | "d = 12" | "d = 13" | "d = 14" | "d = 15"
    by (simp add: numeral_eq_Suc less_Suc_eq) blast
  then show ?thesis
    by cases (simp_all add: hex_digit_def hex_value_def)
qed

lemma unat_byte_lt: "unat (b :: byte) < 256"
  using unsigned_less [of b, where ?'a = nat] by simp

lemma parse_hex_byte:
  "parse_hex_digits acc (byte_hex b @ rest) = parse_hex_digits (256 * acc + unat b) rest"
proof -
  have 1: "unat b div 16 < 16" using unat_byte_lt [of b] by simp
  have 2: "unat b mod 16 < 16" by simp
  have 3: "16 * (16 * acc + unat b div 16) + unat b mod 16 = 256 * acc + unat b"
    by presburger
  show ?thesis
    by (simp only: byte_hex_def append_Cons append_Nil parse_hex_digits.simps
        hex_value_hex_digit [OF 1] hex_value_hex_digit [OF 2] option.case 3)
qed

lemma parse_hex_bytes:
  "parse_hex_digits acc (toString_hex bs) = foldl (\<lambda>acc b. 256 * acc + unat b) acc bs"
proof (induction bs arbitrary: acc)
  case Nil
  then show ?case by (simp add: toString_hex_def)
next
  case (Cons b bs)
  have "toString_hex (b # bs) = byte_hex b @ toString_hex bs" by (simp add: toString_hex_def)
  then show ?case by (simp add: parse_hex_byte Cons.IH)
qed

lemma parseInt16_hex:
  "bs \<noteq> [] \<Longrightarrow> parseInt16 (toString_hex bs) = Some (buffer_value bs)"
proof (cases bs)
  case Nil
  assume "bs \<noteq> []" with Nil show ?thesis by simp
next
  case (Cons b bs')
  have 1: "unat b div 16 < 16" using unat_byte_lt [of b] by simp
  have 2: "unat b mod 16 < 16" by simp
  have e: "toString_hex (b # bs') = hex_digit (unat b div 16) # hex_digit (unat b mod 16) # toString_hex bs'"
    by (simp add: toString_hex_def byte_hex_def)
  have 3: "16 * (unat b div 16) + unat b mod 16 = unat b" by presburger
  show ?thesis unfolding Cons e
    by (simp add: parseInt16_def hex_value_hex_digit [OF 1] hex_value_hex_digit [OF 2] 3
        parse_hex_bytes buffer_value_def)
qed

lemma otp_code_value:
  "buffer \<noteq> [] \<Longrightarrow> otp_code buffer = pad6 (buffer_value buffer mod 1000000)"
  by (simp add: otp_code_def parseInt16_hex pad6_def)

lemma less_10_cases:
  assumes "d < (10::nat)"
  obtains "d = 0" | "d = 1" | "d = 2" | "d = 3" | "d = 4" | "d = 5" | "d = 6" | "d = 7"
    | "d = 8" | "d = 9"
  using assms by (simp add: numeral_eq_Suc less_Suc_eq) blast

lemma dec_digit_value: "d < 10 \<Longrightarrow> of_char (dec_digit d) - 48 = d"
  by (erule less_10_cases) (simp_all add: dec_digit_def)

lemma dec_digit_is_digit: "d < 10 \<Longrightarrow> is_digit (dec_digit d)"
  by (erule less_10_cases) (simp_all add: dec_digit_def is_digit_def)

lemma parse_dec_append: "parse_dec acc (xs @ ys) = parse_dec (parse_dec acc xs) ys"
  by (induction xs arbitrary: acc) simp_all

lemma parse_dec_zeros: "parse_dec 0 (replicate k (CHR ''0'')) = 0"
  by (induction k) simp_all

lemma parse_dec_String_nat: "parse_dec 0 (String_nat n) = n"
proof (induction n rule: String_nat.induct)
  case (1 n)
  show ?case
  proof (cases "n < 10")
    case True
    then show ?thesis by (subst String_nat.simps) (simp add: dec_digit_value)
  next
    case False
    have "parse_dec 0 (String_nat n) = 10 * parse_dec 0 (String_nat (n div 10)) + n mod 10"
      using False by (subst String_nat.simps) (simp add: parse_dec_append dec_digit_value)
    with 1 False show ?thesis by simp
  qed
qed

lemma parse_dec_pad6: "parse_dec 0 (pad6 c) = c"
  by (simp add: pad6_def padStart_def parse_dec_append parse_dec_zeros parse_dec_String_nat)

lemma pad6_inj: "pad6 a = pad6 b \<Longrightarrow> a = b"
  by (metis parse_dec_pad6)

lemma String_nat_digits: "\<forall>c \<in> set (String_nat n). is_digit c"
proof (induction n rule: String_nat.induct)
  case (1 n)
  show ?case
  proof (cases "n < 10")
    case True
    then show ?thesis by (subst String_nat.simps) (simp add: dec_digit_is_digit)
  next
    case False
    with 1 show ?thesis by (subst String_nat.simps) (simp add: dec_digit_is_digit)
  qed
qed

lemma String_nat_length: "n < 10 ^ Suc k \<Longrightarrow> length (String_nat n) \<le> Suc k"
proof (induction k arbitrary: n)
  case 0
  then show ?case by (subst String_nat.simps) simp
next
  case (Suc k)
  show ?case
  proof (cases "n < 10")
    case True
    then show ?thesis by (subst String_nat.simps) simp
  next
    case False
    from Suc.prems have "n div 10 < 10 ^ Suc k" by (simp add: less_mult_imp_div_less mult.commute)
    from Suc.IH [OF this] False show ?thesis by (subst String_nat.simps) simp
  qed
qed

lemma String_nat_nonempty: "String_nat n \<noteq> []"
  by (subst String_nat.simps) simp

lemma pad6_length: "c < 1000000 \<Longrightarrow> length (pad6 c) = 6"
proof -
  assume "c < 1000000"
  then have "c < 10 ^ Suc 5" by simp
  then have "length (String_nat c) \<le> 6" using String_nat_length [of c 5] by simp
  then show ?thesis by (simp add: pad6_def padStart_def)
qed

lemma pad6_digits: "\<forall>ch \<in> set (pad6 c). is_digit ch"
  using String_nat_digits [of c] by (auto simp: pad6_def padStart_def is_digit_def)

lemma byte3_hi: "b < 256 \<Longrightarrow> c < 256 \<Longrightarrow> (65536 * a + 256 * b + c) div 65536 = (a::nat)"
proof -
  assume "b < 256" "c < 256"
  then have r: "256 * b + c < 65536" by linarith
  have "(65536 * a + 256 * b + c) div 65536 = (256 * b + c + a * 65536) div 65536"
    by (simp add: ac_simps)
  also have "\<dots> = a + (256 * b + c) div 65536" by (rule div_mult_self1) simp
  finally show ?thesis using r by simp
qed
lemma byte3_mid: "b < 256 \<Longrightarrow> c < 256 \<Longrightarrow> (65536 * a + 256 * b + c) div 256 mod 256 = (b::nat)"
proof -
  assume bc: "b < 256" "c < 256"
  have "(65536 * a + 256 * b + c) div 256 = (c + (256 * a + b) * 256) div 256"
    by (simp add: ac_simps)
  also have "\<dots> = (256 * a + b) + c div 256" by (rule div_mult_self1) simp
  finally have "(65536 * a + 256 * b + c) div 256 = 256 * a + b" using bc by simp
  then show ?thesis using bc by simp
qed
lemma byte3_lo: "c < 256 \<Longrightarrow> (65536 * a + 256 * b + c) mod 256 = (c::nat)"
proof -
  assume c: "c < 256"
  have "(65536 * a + 256 * b + c) mod 256 = (c + (256 * a + b) * 256) mod 256"
    by (simp add: ac_simps)
  also have "\<dots> = c mod 256" by (rule mod_mult_self1)
  finally show ?thesis using c by simp
qed
lemma byte3_split: "65536 * (v div 65536) + 256 * (v div 256 mod 256) + v mod 256 = (v::nat)"
proof -
  have "v div 256 mod 256 + 256 * (v div 256 div 256) = v div 256"
    by (simp add: mod_mult_div_eq)
  moreover have "v div 256 div 256 = v div 65536" by (simp add: div_mult2_eq [symmetric])
  moreover have "256 * (v div 256) + v mod 256 = v" by simp
  ultimately show ?thesis by linarith
qed
lemma byte3_top: "(v::nat) < 16777216 \<Longrightarrow> v div 65536 mod 256 = v div 65536"
  by (simp add: less_mult_imp_div_less)
lemma draw_decompose: "(v::nat) mod 1000000 = c \<Longrightarrow> v = c + 1000000 * (v div 1000000)"
  by (metis mult_div_mod_eq add.commute)

lemma draw_quotient: "(v::nat) < 16777216 \<Longrightarrow> v div 1000000 < 17"
  by (simp add: less_mult_imp_div_less)

lemma draw_quotient_high:
  "(v::nat) < 16777216 \<Longrightarrow> v mod 1000000 = c \<Longrightarrow> 777216 \<le> c \<Longrightarrow> v div 1000000 < 16"
proof (rule ccontr)
  assume v: "v < 16777216" "v mod 1000000 = c" "777216 \<le> c" and n: "\<not> v div 1000000 < 16"
  then have "16 \<le> v div 1000000" by simp
  then have "16 * 1000000 \<le> (v div 1000000) * 1000000" by (rule mult_le_mono1)
  moreover have "v = (v div 1000000) * 1000000 + v mod 1000000" by simp
  ultimately show False using v by linarith
qed

lemma draws_low:
  assumes "c < 777216"
  shows "{v::nat. v < 16777216 \<and> v mod 1000000 = c} = (\<lambda>k. c + 1000000 * k) ` {..<17}"
proof (intro set_eqI iffI)
  fix v assume "v \<in> {v::nat. v < 16777216 \<and> v mod 1000000 = c}"
  then have v: "v < 16777216" "v mod 1000000 = c" by simp_all
  have "v = c + 1000000 * (v div 1000000)" using v(2) by (rule draw_decompose)
  moreover have "v div 1000000 < 17" using v(1) by (rule draw_quotient)
  ultimately show "v \<in> (\<lambda>k. c + 1000000 * k) ` {..<17}" by blast
next
  fix v assume "v \<in> (\<lambda>k. c + 1000000 * k) ` {..<17}"
  then obtain k where k: "k < 17" "v = c + 1000000 * k" by auto
  with assms show "v \<in> {v::nat. v < 16777216 \<and> v mod 1000000 = c}" by simp
qed

lemma draws_high:
  assumes "777216 \<le> c" "c < 1000000"
  shows "{v::nat. v < 16777216 \<and> v mod 1000000 = c} = (\<lambda>k. c + 1000000 * k) ` {..<16}"
proof (intro set_eqI iffI)
  fix v assume "v \<in> {v::nat. v < 16777216 \<and> v mod 1000000 = c}"
  then have v: "v < 16777216" "v mod 1000000 = c" by simp_all
  have "v = c + 1000000 * (v div 1000000)" using v(2) by (rule draw_decompose)
  moreover have "v div 1000000 < 16" using v assms(1) by (rule draw_quotient_high)
  ultimately show "v \<in> (\<lambda>k. c + 1000000 * k) ` {..<16}" by blast
next
  fix v assume "v \<in> (\<lambda>k. c + 1000000 * k) ` {..<16}"
  then obtain k where k: "k < 16" "v = c + 1000000 * k" by auto
  with assms show "v \<in> {v::nat. v < 16777216 \<and> v mod 1000000 = c}" by simp
qed

lemma card_draws:
  assumes "c < 1000000"
  shows "card {v::nat. v < 16777216 \<and> v mod 1000000 = c} = (if c < 777216 then 17 else 16)"
proof -
  have inj: "inj_on (\<lambda>k::nat. c + 1000000 * k) A" for A by (simp add: inj_on_def)
  show ?thesis
  proof (cases "c < 777216")
    case True
    then show ?thesis by (simp add: draws_low card_image [OF inj])
  next
    case False
    with assms have "777216 \<le> c" "c < 1000000" by simp_all
    from draws_high [OF this] False show ?thesis by (simp add: card_image [OF inj])
  qed
qed

lemma buffer_value3: "buffer_value [a, b, c] = 65536 * unat a + 256 * unat b + unat c"
  by (simp add: buffer_value_def)

lemma length3: "length bs = 3 \<longleftrightarrow> (\<exists>a b c. bs = [a, b, c])"
  by (auto simp: numeral_3_eq_3 length_Suc_conv)

lemma buffer_of_value: "length bs = 3 \<Longrightarrow> buffer_of (buffer_value bs) = bs"
proof -
  assume "length bs = 3"
  then obtain a b c where bs: "bs = [a, b, c]" by (auto simp: length3)
  have l: "unat a < 256" "unat b < 256" "unat c < 256" by (rule unat_byte_lt)+
  have 1: "(65536 * unat a + 256 * unat b + unat c) div 65536 = unat a" using l by (simp add: byte3_hi)
  have 2: "(65536 * unat a + 256 * unat b + unat c) div 256 mod 256 = unat b" using l by (simp add: byte3_mid)
  have 3: "(65536 * unat a + 256 * unat b + unat c) mod 256 = unat c" using l by (simp add: byte3_lo)
  show ?thesis unfolding bs buffer_value3 buffer_of_def 1 2 3 by simp
qed

lemma buffer_value_of: "v < 16777216 \<Longrightarrow> buffer_value (buffer_of v) = v"
proof -
  assume v: "v < 16777216"
  have 1: "unat (of_nat (v div 65536) :: byte) = v div 65536"
    using v by (simp add: unat_of_nat byte3_top)
  have 2: "unat (of_nat (v div 256 mod 256) :: byte) = v div 256 mod 256"
    by (simp add: unat_of_nat)
  have 3: "unat (of_nat (v mod 256) :: byte) = v mod 256"
    by (simp add: unat_of_nat)
  have "65536 * (v div 65536) + 256 * (v div 256 mod 256) + v mod 256 = v" by (rule byte3_split)
  then show ?thesis unfolding buffer_of_def buffer_value3 1 2 3 .
qed

lemma buffer_value_bound: "length bs = 3 \<Longrightarrow> buffer_value bs < 16777216"
proof -
  assume "length bs = 3"
  then obtain a b c where bs: "bs = [a, b, c]" by (auto simp: length3)
  have l: "unat a < 256" "unat b < 256" "unat c < 256" by (rule unat_byte_lt)+
  then show ?thesis unfolding bs buffer_value3 by linarith
qed

lemma buffer_value_image:
  "buffer_value ` {bs. length bs = 3 \<and> buffer_value bs mod 1000000 = c}
     = {v. v < 16777216 \<and> v mod 1000000 = c}"
proof (intro set_eqI iffI)
  fix v assume "v \<in> buffer_value ` {bs. length bs = 3 \<and> buffer_value bs mod 1000000 = c}"
  then obtain bs where bs: "length bs = 3" "buffer_value bs mod 1000000 = c" "v = buffer_value bs"
    by blast
  from buffer_value_bound [OF bs(1)] bs(2,3)
  show "v \<in> {v. v < 16777216 \<and> v mod 1000000 = c}" by blast
next
  fix v assume "v \<in> {v. v < 16777216 \<and> v mod 1000000 = c}"
  then have v: "v < 16777216" "v mod 1000000 = c" by blast+
  have l: "length (buffer_of v) = 3" by (simp add: buffer_of_def)
  note e = buffer_value_of [OF v(1)]
  from v(2) have "buffer_value (buffer_of v) mod 1000000 = c" by (simp only: e)
  with l have "buffer_of v \<in> {bs. length bs = 3 \<and> buffer_value bs mod 1000000 = c}" by blast
  then have "buffer_value (buffer_of v) \<in> buffer_value ` {bs. length bs = 3 \<and> buffer_value bs mod 1000000 = c}"
    by (rule imageI)
  then show "v \<in> buffer_value ` {bs. length bs = 3 \<and> buffer_value bs mod 1000000 = c}"
    by (simp only: e)
qed

lemma buffer_value_inj: "inj_on buffer_value {bs. length bs = 3 \<and> P bs}"
  by (rule inj_on_inverseI [where g = buffer_of]) (simp add: buffer_of_value)

lemma otp_count_pad6:
  assumes "c < 1000000"
  shows "otp_count (pad6 c) = (if c < 777216 then 17 else 16)"
proof -
  have "{buffer. length buffer = 3 \<and> otp_code buffer = pad6 c}
      = {bs. length bs = 3 \<and> buffer_value bs mod 1000000 = c}"
  proof (intro set_eqI iffI)
    fix bs assume "bs \<in> {buffer. length buffer = 3 \<and> otp_code buffer = pad6 c}"
    then have b: "length bs = 3" "otp_code bs = pad6 c" by simp_all
    from b(1) have "bs \<noteq> []" by auto
    from otp_code_value [OF this] b(2) have "buffer_value bs mod 1000000 = c"
      by (metis pad6_inj)
    with b(1) show "bs \<in> {bs. length bs = 3 \<and> buffer_value bs mod 1000000 = c}" by simp
  next
    fix bs assume "bs \<in> {bs. length bs = 3 \<and> buffer_value bs mod 1000000 = c}"
    then have b: "length bs = 3" "buffer_value bs mod 1000000 = c" by simp_all
    from b(1) have "bs \<noteq> []" by auto
    from otp_code_value [OF this] b show "bs \<in> {buffer. length buffer = 3 \<and> otp_code buffer = pad6 c}"
      by simp
  qed
  then have "otp_count (pad6 c) = card {bs. length bs = 3 \<and> buffer_value bs mod 1000000 = c}"
    by (simp add: otp_count_def)
  also have "\<dots> = card (buffer_value ` {bs. length bs = 3 \<and> buffer_value bs mod 1000000 = c})"
    by (rule card_image [OF buffer_value_inj, symmetric])
  also have "\<dots> = card {v::nat. v < 16777216 \<and> v mod 1000000 = c}"
    by (simp only: buffer_value_image)
  also have "\<dots> = (if c < 777216 then 17 else 16)" by (rule card_draws [OF assms])
  finally show ?thesis .
qed

lemma String_nat_digit: "n < 10 \<Longrightarrow> String_nat n = [dec_digit n]"
  by (subst String_nat.simps) simp

lemma String_nat_step: "\<not> n < 10 \<Longrightarrow> String_nat n = String_nat (n div 10) @ [dec_digit (n mod 10)]"
  by (subst String_nat.simps) simp

lemma replicate5: "replicate 5 c = [c, c, c, c, c]"
  by (simp add: numeral_eq_Suc)

lemma pad6_0: "pad6 0 = ''000000''"
  by (simp add: pad6_def padStart_def String_nat_digit dec_digit_def replicate5)

lemma pad6_999999: "pad6 999999 = ''999999''"
  by (simp add: pad6_def padStart_def String_nat_digit String_nat_step dec_digit_def)

lemma otp_code_example: "otp_code [15, 66, 64] = ''000000''"
  by (simp add: otp_code_value buffer_value_def pad6_0)

text \<open>
  Claim C9, as stated: every one of the 1,000,000 codes is produced with equal probability
  by a uniform 24-bit draw. Of the \<open>2 ^ 24\<close> three-byte buffers, 17 give the code
  \<open>000000\<close> and 16 give the code \<open>999999\<close>.
\<close>

theorem C9_modulo_bias:
  "otp_count ''000000'' = 17 \<and> otp_count ''999999'' = 16 \<and> otp_count ''000000'' \<noteq> otp_count ''999999''"
  using otp_count_pad6 [of 0] otp_count_pad6 [of 999999] by (simp add: pad6_0 pad6_999999)

text \<open>
  Claim C9, amended: for a three-byte draw the code is the value of the draw modulo
  1,000,000, left-padded with zeros: a string of six decimal digits. Every code from
  \<open>000000\<close> to \<open>999999\<close> is produced, by 17 of the 16,777,216 draws when it is below
  \<open>777216\<close> and by 16 of them otherwise, so the distribution is close to uniform but
  not uniform.
\<close>

theorem C9_otp_code_distribution:
  "(length buffer = 3 \<longrightarrow>
      length (otp_code buffer) = 6 \<and> (\<forall>ch \<in> set (otp_code buffer). is_digit ch)
      \<and> otp_code buffer = pad6 (buffer_value buffer mod 1000000))
   \<and> (c < 1000000 \<longrightarrow> otp_count (pad6 c) = (if c < 777216 then 17 else 16))"
proof (intro conjI impI)
  assume l: "length buffer = 3"
  then have ne: "buffer \<noteq> []" by auto
  show e: "otp_code buffer = pad6 (buffer_value buffer mod 1000000)"
    by (rule otp_code_value [OF ne])
  show "length (otp_code buffer) = 6" unfolding e by (rule pad6_length) simp
  show "\<forall>ch \<in> set (otp_code buffer). is_digit ch" unfolding e by (rule pad6_digits)
next
  assume "c < 1000000"
  then show "otp_count (pad6 c) = (if c < 777216 then 17 else 16)" by (rule otp_count_pad6)
qed

theorem C9_otp_code_distribution_witness:
  "length (otp_code [15, 66, 64]) = 6
   \<and> otp_code [15, 66, 64] = pad6 (buffer_value [15, 66, 64] mod 1000000)
   \<and> otp_count (pad6 0) = (if (0::nat) < 777216 then 17 else 16)
   \<and> otp_count (pad6 999999) = (if (999999::nat) < 777216 then 17 else 16)"
proof -
  have l: "length [15, 66, 64 :: byte] = 3" by simp
  note a = C9_otp_code_distribution [of "[15, 66, 64]" 0, THEN conjunct1, rule_format, OF l]
  have b: "otp_count (pad6 0) = (if (0::nat) < 777216 then 17 else 16)"
    by (rule C9_otp_code_distribution [THEN conjunct2, rule_format]) simp
  have c: "otp_count (pad6 999999) = (if (999999::nat) < 777216 then 17 else 16)"
    by (rule C9_otp_code_distribution [THEN conjunct2, rule_format]) simp
  from a b c show ?thesis by blast
qed

section \<open>Properties of the refresh tokens and the controllers\<close>

lemma findOne_index_Some:
  "findOne_index P xs = Some i \<Longrightarrow> i < length xs \<and> P (xs ! i)"
proof (induction xs arbitrary: i)
  case Nil
  then show ?case by simp
next
  case (Cons x xs)
  show ?case
  proof (cases "P x")
    case True
    with Cons.prems show ?thesis by simp
  next
    case False
    with Cons.prems obtain j where j: "findOne_index P xs = Some j" "i = Suc j" by auto
    from Cons.IH [OF j(1)] j(2) show ?thesis by simp
  qed
qed

lemma findOne_index_None: "findOne_index P xs = None \<longleftrightarrow> (\<forall>x \<in> set xs. \<not> P x)"
  by (induction xs) auto

lemma revoke_tokens: "map token (snd (revokeRefreshToken t tok)) = map token t"
proof (cases "findOne_index (\<lambda>r. token r = tok) t")
  case None
  then show ?thesis by (simp add: revokeRefreshToken_def)
next
  case (Some i)
  from findOne_index_Some [OF Some] have "i < length t" by simp
  then have "map token (t[i := (t ! i)\<lparr>isRevoked := True\<rparr>]) = map token t"
    by (simp add: map_update list_update_same_conv)
  with Some show ?thesis by (simp add: revokeRefreshToken_def)
qed

lemma revoke_revokes:
  assumes "distinct (map token t)"
  shows "\<forall>r \<in> set (snd (revokeRefreshToken t tok)). token r = tok \<longrightarrow> isRevoked r"
proof (cases "findOne_index (\<lambda>r. token r = tok) t")
  case None
  then have "snd (revokeRefreshToken t tok) = t" by (simp add: revokeRefreshToken_def)
  moreover from None have "\<forall>x \<in> set t. token x \<noteq> tok" by (simp add: findOne_index_None)
  ultimately show ?thesis by simp
next
  case (Some i)
  from findOne_index_Some [OF Some] have i: "i < length t" "token (t ! i) = tok" by simp_all
  let ?t' = "t[i := (t ! i)\<lparr>isRevoked := True\<rparr>]"
  have "\<forall>r \<in> set ?t'. token r = tok \<longrightarrow> isRevoked r"
  proof (intro ballI impI)
    fix r assume "r \<in> set ?t'" and tk: "token r = tok"
    then obtain j where j: "j < length t" "r = ?t' ! j" by (auto simp: in_set_conv_nth)
    show "isRevoked r"
    proof (cases "j = i")
      case True
      with j i show ?thesis by simp
    next
      case False
      with j have "r = t ! j" by simp
      with tk i j have "map token t ! j = map token t ! i" by simp
      moreover have "j < length (map token t)" "i < length (map token t)" using i(1) j(1) by simp_all
      ultimately have "j = i" using nth_eq_iff_index_eq [OF assms] by blast
      with False show ?thesis by simp
    qed
  qed
  with Some show ?thesis by (simp add: revokeRefreshToken_def)
qed

lemma verifyRefreshToken_None:
  "\<forall>r \<in> set t. token r = tok \<longrightarrow> isRevoked r \<Longrightarrow> verifyRefreshToken t now tok = None"
proof -
  assume "\<forall>r \<in> set t. token r = tok \<longrightarrow> isRevoked r"
  then have "find (\<lambda>r. token r = tok \<and> \<not> isRevoked r) t = None"
    by (auto simp: find_None_iff)
  then show ?thesis by (simp add: verifyRefreshToken_def)
qed

lemma verifyRefreshToken_Some:
  "verifyRefreshToken t now tok = Some d \<Longrightarrow>
     d \<in> set t \<and> token d = tok \<and> \<not> isRevoked d \<and> now \<le> rt_expiresAt d"
  by (auto simp: verifyRefreshToken_def find_Some_iff split: option.splits if_splits)

lemma generateRefreshToken_Some:
  "generateRefreshToken env t now buffer uid days = Some (x, t') \<Longrightarrow>
     x = toString_hex buffer \<and> x \<notin> token ` set t \<and>
     t' = t @ [\<lparr>token = x, rt_userId = uid,
                 rt_expiresAt = setDate_plus env now (int (case days of None \<Rightarrow> 7 | Some d \<Rightarrow> d)),
                 isRevoked = False\<rparr>]"
  by (auto simp: generateRefreshToken_def RefreshToken_create_def Let_def split: if_splits)

lemma generateRefreshToken_fresh:
  "toString_hex buffer \<notin> token ` set t \<Longrightarrow>
     generateRefreshToken env t now buffer uid days =
       Some (toString_hex buffer,
             t @ [\<lparr>token = toString_hex buffer, rt_userId = uid,
                    rt_expiresAt = setDate_plus env now (int (case days of None \<Rightarrow> 7 | Some d \<Rightarrow> d)),
                    isRevoked = False\<rparr>])"
  by (simp add: generateRefreshToken_def RefreshToken_create_def Let_def)

lemma generateToken_1h:
  "generateToken env now uid ty (Some ''1h'') vc =
     Some \<lparr>payload = AccessPayload uid ty (case vc of None \<Rightarrow> False | Some b \<Rightarrow> b),
           iat = now div 1000, exp = now div 1000 + 3600, signed_with = secret env\<rparr>"
  by (simp add: generateToken_def jwt_sign_def timespan_1h)

lemma refreshToken_Json:
  assumes "refreshToken env s now buffer body_rt = (Json 200 b, s')"
  obtains tok tokenDoc u where
    "body_rt = Some tok" "tok \<noteq> []"
    "verifyRefreshToken (refresh_tokens s) now tok = Some tokenDoc"
    "findUserById (users s) (rt_userId tokenDoc) = Some u"
    "roleId u = userTypes_user" "isActive u"
    "generateRefreshToken env (snd (revokeRefreshToken (refresh_tokens s) tok)) now buffer (user_id u) None
       = Some (toString_hex buffer, refresh_tokens s')"
    "s' = s\<lparr>refresh_tokens := refresh_tokens s'\<rparr>"
    "b = \<lparr>res_error = False, res_message = ''Token refreshed'',
          res_accessToken = generateToken env now (user_id u) userTypes_user (Some ''1h'') None,
          res_refreshToken = Some (toString_hex buffer),
          res_user = None, res_requireVerification = None\<rparr>"
proof -
  from assms obtain tok where t: "body_rt = Some tok" "tok \<noteq> []"
    by (cases body_rt) (auto simp: refreshToken_def falsy_def split: if_splits)
  from assms t obtain tokenDoc where d: "verifyRefreshToken (refresh_tokens s) now tok = Some tokenDoc"
    by (cases "verifyRefreshToken (refresh_tokens s) now tok") (auto simp: refreshToken_def falsy_def)
  from assms t d obtain u where u: "findUserById (users s) (rt_userId tokenDoc) = Some u"
    by (cases "findUserById (users s) (rt_userId tokenDoc)") (auto simp: refreshToken_def falsy_def)
  from assms t d u have a: "roleId u = userTypes_user" "isActive u"
    by (auto simp: refreshToken_def falsy_def split: if_splits)
  from assms t d u a obtain x rts where
    g: "generateRefreshToken env (snd (revokeRefreshToken (refresh_tokens s) tok)) now buffer (user_id u) None = Some (x, rts)"
    by (cases "generateRefreshToken env (snd (revokeRefreshToken (refresh_tokens s) tok)) now buffer (user_id u) None")
       (auto simp: refreshToken_def falsy_def generateToken_1h)
  from generateRefreshToken_Some [OF g] have x: "x = toString_hex buffer" by simp
  from assms t d u a g have r: "s' = s\<lparr>refresh_tokens := rts\<rparr>"
    and bb: "b = \<lparr>res_error = False, res_message = ''Token refreshed'',
          res_accessToken = generateToken env now (user_id u) userTypes_user (Some ''1h'') None,
          res_refreshToken = Some x,
          res_user = None, res_requireVerification = None\<rparr>"
    by (auto simp: refreshToken_def falsy_def generateToken_1h)
  from r have "refresh_tokens s' = rts" by simp
  with that [OF t d u a] g x r bb show thesis by simp
qed

lemma setDate_plus_constant_offset:
  "\<forall>t isUTC. LocalTZA env t isUTC = k \<Longrightarrow> setDate_plus env d n = d + n * 86400000"
  by (simp add: setDate_plus_def UTC_def LocalTime_def)

lemma setMinutes_plus_constant_offset:
  "\<forall>t isUTC. LocalTZA env t isUTC = k \<Longrightarrow> setMinutes_plus env d m = d + m * 60000"
  by (simp add: setMinutes_plus_def UTC_def LocalTime_def)

lemma find_snoc:
  "find P (xs @ [x]) = (case find P xs of None \<Rightarrow> if P x then Some x else None | Some y \<Rightarrow> Some y)"
  by (induction xs) simp_all

lemma refreshToken_revoked_fails:
  assumes "\<forall>r \<in> set (refresh_tokens s). token r = tok \<longrightarrow> isRevoked r" and "tok \<noteq> []"
  shows "refreshToken env s now buffer (Some tok) = (Failure 401 ''Invalid or expired refresh token'', s)"
  using verifyRefreshToken_None [OF assms(1)] assms(2)
  by (simp add: refreshToken_def falsy_def)

lemma revokeAll_set:
  "r' \<in> set (snd (revokeAllUserRefreshTokens t uid)) \<longleftrightarrow>
     (\<exists>r0 \<in> set t. r' = (if rt_userId r0 = uid \<and> \<not> isRevoked r0 then r0\<lparr>isRevoked := True\<rparr> else r0))"
  unfolding revokeAllUserRefreshTokens_def snd_conv set_map image_iff by (rule refl)

lemma revokeAll_revoked:
  "\<forall>r \<in> set (snd (revokeAllUserRefreshTokens t uid)). rt_userId r = uid \<longrightarrow> isRevoked r"
proof (intro ballI impI)
  fix r' assume "r' \<in> set (snd (revokeAllUserRefreshTokens t uid))" and o: "rt_userId r' = uid"
  then obtain r0 where r0: "r0 \<in> set t"
    "r' = (if rt_userId r0 = uid \<and> \<not> isRevoked r0 then r0\<lparr>isRevoked := True\<rparr> else r0)"
    unfolding revokeAll_set by blast
  show "isRevoked r'"
  proof (cases "rt_userId r0 = uid \<and> \<not> isRevoked r0")
    case True
    with r0(2) show ?thesis by simp
  next
    case False
    with r0(2) have "r' = r0" by simp
    with False o show ?thesis by simp
  qed
qed

lemma revokeAll_old_tokens:
  assumes "distinct (map token t)" and "r \<in> set t" and "rt_userId r = uid"
  shows "\<forall>r' \<in> set (snd (revokeAllUserRefreshTokens t uid)). token r' = token r \<longrightarrow> isRevoked r'"
proof (intro ballI impI)
  fix r' assume "r' \<in> set (snd (revokeAllUserRefreshTokens t uid))" and tk: "token r' = token r"
  then obtain r0 where r0: "r0 \<in> set t"
    "r' = (if rt_userId r0 = uid \<and> \<not> isRevoked r0 then r0\<lparr>isRevoked := True\<rparr> else r0)"
    unfolding revokeAll_set by blast
  have "token r' = token r0" unfolding r0(2) by simp
  with tk have "token r0 = token r" by simp
  moreover from assms(1) have "inj_on token (set t)" by (simp add: distinct_map)
  ultimately have "r0 = r" using r0(1) assms(2) by (blast dest: inj_onD)
  with r0(2) assms(3) show "isRevoked r'" by (cases "isRevoked r") simp_all
qed

lemma findOne_index_find:
  "findOne_index P xs = None \<longleftrightarrow> find P xs = None"
  by (induction xs) auto

lemma updateUser_found:
  "findUserById us uid = Some u \<Longrightarrow> \<exists>us'. updateUser env us uid upd = Some us'"
proof -
  assume "findUserById us uid = Some u"
  then have "findOne_index (\<lambda>u. user_id u = uid) us \<noteq> None"
    by (simp add: findOne_index_find findUserById_def)
  then show ?thesis by (auto simp: updateUser_def)
qed

lemma resetPassword_Json:
  assumes "resetPassword env s now body_token body_newPassword = (Json 200 b, s')"
  obtains tok newPassword uid mail u where
    "body_token = Some tok" "body_newPassword = Some newPassword"
    "verifyToken env now tok = Some (ResetPayload uid mail)"
    "findUserById (users s) uid = Some u" "email u = mail"
    "updateUser env (users s) uid (SetPassword newPassword) = Some (users s')"
    "refresh_tokens s' = snd (revokeAllUserRefreshTokens (refresh_tokens s) uid)"
    "otps s' = otps s"
proof -
  from assms obtain tok newPassword where t: "body_token = Some tok" "body_newPassword = Some newPassword"
    by (cases body_token; cases body_newPassword) (auto simp: resetPassword_def falsy_def split: if_splits)
  from assms t obtain p where p: "verifyToken env now tok = Some p"
    by (cases "verifyToken env now tok") (auto simp: resetPassword_def split: if_splits)
  from assms t p obtain uid mail where pp: "p = ResetPayload uid mail"
    by (cases p) (auto simp: resetPassword_def split: if_splits)
  from assms t p pp obtain u where u: "findUserById (users s) uid = Some u"
    by (cases "findUserById (users s) uid") (auto simp: resetPassword_def split: if_splits)
  from updateUser_found [OF u] obtain us' where
    up: "updateUser env (users s) uid (SetPassword newPassword) = Some us'" by blast
  from assms t p pp u up have e: "email u = mail"
    and s': "s' = s\<lparr>users := us',
             refresh_tokens := snd (revokeAllUserRefreshTokens (refresh_tokens s) uid)\<rparr>"
    by (auto simp: resetPassword_def split: if_splits)
  from s' have "users s' = us'"
    and r: "refresh_tokens s' = snd (revokeAllUserRefreshTokens (refresh_tokens s) uid)"
    and o: "otps s' = otps s" by simp_all
  with up have "updateUser env (users s) uid (SetPassword newPassword) = Some (users s')" by simp
  from that [OF t p [unfolded pp] u e this r o] show thesis .
qed

lemma find_by_id: "find (\<lambda>u. user_id u = x) us = Some u \<Longrightarrow> user_id u = x"
  by (induction us) (auto split: if_splits)

lemma findUserById_update_first:
  assumes "findOne_index (\<lambda>u. user_id u = uid) us = Some i"
    and "\<And>u. user_id (g u) = user_id u"
  shows "findUserById (us[i := g (us ! i)]) x =
     map_option (\<lambda>u. if user_id u = uid then g u else u) (findUserById us x)"
  using assms(1)
proof (induction us arbitrary: i)
  case Nil
  then show ?case by simp
next
  case (Cons a us)
  show ?case
  proof (cases "user_id a = uid")
    case True
    with Cons.prems have i: "i = 0" by simp
    show ?thesis
    proof (cases "uid = x")
      case True
      with \<open>user_id a = uid\<close> i assms(2) show ?thesis by (simp add: findUserById_def)
    next
      case False
      have "map_option (\<lambda>u. if user_id u = uid then g u else u) (find (\<lambda>u. user_id u = x) us)
          = find (\<lambda>u. user_id u = x) us"
      proof (cases "find (\<lambda>u. user_id u = x) us")
        case None
        then show ?thesis by simp
      next
        case (Some u)
        from find_by_id [OF Some] False have "user_id u \<noteq> uid" by simp
        with Some show ?thesis by simp
      qed
      with False \<open>user_id a = uid\<close> i assms(2) show ?thesis by (simp add: findUserById_def)
    qed
  next
    case False
    with Cons.prems obtain j where j: "findOne_index (\<lambda>u. user_id u = uid) us = Some j" "i = Suc j"
      by auto
    from Cons.IH [OF j(1)] j(2) False show ?thesis by (simp add: findUserById_def)
  qed
qed

lemma updateUser_password:
  assumes "updateUser env us uid (SetPassword p) = Some us'" and "p \<noteq> []"
  obtains i where "findOne_index (\<lambda>u. user_id u = uid) us = Some i" "i < length us"
    "user_id (us ! i) = uid" "us' = us[i := (us ! i)\<lparr>password := bcrypt_hash env p\<rparr>]"
proof -
  from assms(1) obtain i where i: "findOne_index (\<lambda>u. user_id u = uid) us = Some i"
    and u: "us' = us[i := apply_update env (SetPassword p) (us ! i)]"
    by (auto simp: updateUser_def split: option.splits)
  from findOne_index_Some [OF i] have "i < length us" "user_id (us ! i) = uid" by simp_all
  moreover from u assms(2) have "us' = us[i := (us ! i)\<lparr>password := bcrypt_hash env p\<rparr>]" by simp
  ultimately show thesis using i that by blast
qed

lemma refreshToken_users_frame:
  assumes "refresh_tokens s' = refresh_tokens s"
    and "findOne_index (\<lambda>u. user_id u = uid) (users s) = Some i"
    and "users s' = (users s)[i := (users s ! i)\<lparr>password := h\<rparr>]"
  shows "fst (refreshToken env s' now buffer body_rt) = fst (refreshToken env s now buffer body_rt)"
proof -
  have f: "findUserById (users s') x =
      map_option (\<lambda>u. if user_id u = uid then u\<lparr>password := h\<rparr> else u) (findUserById (users s) x)"
    for x
    unfolding assms(3) by (rule findUserById_update_first [OF assms(2)]) simp
  show ?thesis
    by (cases body_rt)
       (auto simp: refreshToken_def assms(1) f generateToken_1h split: option.splits if_splits prod.splits)
qed

lemma revoke_set:
  "r' \<in> set (snd (revokeRefreshToken t tok)) \<Longrightarrow> \<exists>r \<in> set t. r' = r \<or> r' = r\<lparr>isRevoked := True\<rparr>"
proof (cases "findOne_index (\<lambda>r. token r = tok) t")
  case None
  from None have e: "snd (revokeRefreshToken t tok) = t" by (simp add: revokeRefreshToken_def)
  assume "r' \<in> set (snd (revokeRefreshToken t tok))"
  then have "r' \<in> set t" unfolding e .
  then show ?thesis by blast
next
  case (Some i)
  from Some have e: "snd (revokeRefreshToken t tok) = t[i := (t ! i)\<lparr>isRevoked := True\<rparr>]"
    by (simp add: revokeRefreshToken_def)
  assume "r' \<in> set (snd (revokeRefreshToken t tok))"
  then have "r' \<in> set (t[i := (t ! i)\<lparr>isRevoked := True\<rparr>])" unfolding e .
  then have "r' \<in> insert ((t ! i)\<lparr>isRevoked := True\<rparr>) (set t)"
    by (rule set_update_subset_insert [THEN subsetD])
  then have "r' = (t ! i)\<lparr>isRevoked := True\<rparr> \<or> r' \<in> set t" by simp
  moreover from findOne_index_Some [OF Some] have "t ! i \<in> set t" by simp
  ultimately show ?thesis by (elim disjE) (rule bexI [of _ "t ! i"], simp, assumption, rule bexI [of _ r'], simp, assumption)
qed

lemma dead_generate:
  assumes "dead tok t"
  shows "dead tok (rt_apply env t (Generate now buffer uid days))"
proof (cases "generateRefreshToken env t now buffer uid days")
  case None
  with assms show ?thesis by simp
next
  case (Some p)
  obtain x t' where p: "p = (x, t')" by (cases p)
  from generateRefreshToken_Some [OF Some [unfolded p]]
  have x: "x \<notin> token ` set t" and t': "t' = t @ [\<lparr>token = x, rt_userId = uid,
                 rt_expiresAt = setDate_plus env now (int (case days of None \<Rightarrow> 7 | Some d \<Rightarrow> d)),
                 isRevoked = False\<rparr>]" by blast+
  from assms x have "x \<noteq> tok" by (auto simp: dead_def)
  with assms have "dead tok t'" unfolding t' dead_def by auto
  with Some p show ?thesis by simp
qed

lemma dead_revoke:
  assumes "dead tok t"
  shows "dead tok (rt_apply env t (Revoke tok'))"
proof -
  have "token ` set (snd (revokeRefreshToken t tok')) = token ` set t"
    using revoke_tokens [of t tok'] by (metis set_map)
  moreover have "isRevoked r'" if "r' \<in> set (snd (revokeRefreshToken t tok'))" "token r' = tok" for r'
  proof -
    from revoke_set [OF that(1)] obtain r where r: "r \<in> set t" "r' = r \<or> r' = r\<lparr>isRevoked := True\<rparr>"
      by blast
    from r(2) show ?thesis
    proof
      assume "r' = r"
      with r(1) that(2) assms show ?thesis by (simp add: dead_def)
    next
      assume "r' = r\<lparr>isRevoked := True\<rparr>"
      then show ?thesis by simp
    qed
  qed
  ultimately show ?thesis using assms by (simp add: dead_def)
qed

lemma dead_revokeAll:
  assumes "dead tok t"
  shows "dead tok (rt_apply env t (RevokeAll uid))"
proof -
  have "map token (snd (revokeAllUserRefreshTokens t uid)) = map token t"
    by (simp add: revokeAllUserRefreshTokens_def comp_def if_distrib [of token] cong: if_cong)
  then have "token ` set (snd (revokeAllUserRefreshTokens t uid)) = token ` set t"
    by (metis set_map)
  moreover have "isRevoked r'" if "r' \<in> set (snd (revokeAllUserRefreshTokens t uid))" "token r' = tok" for r'
  proof -
    from that(1) obtain r0 where r0: "r0 \<in> set t"
      "r' = (if rt_userId r0 = uid \<and> \<not> isRevoked r0 then r0\<lparr>isRevoked := True\<rparr> else r0)"
      unfolding revokeAll_set by blast
    show ?thesis
    proof (cases "rt_userId r0 = uid \<and> \<not> isRevoked r0")
      case True
      with r0(2) show ?thesis by simp
    next
      case False
      with r0(2) have "r' = r0" by simp
      with r0(1) that(2) assms show ?thesis by (simp add: dead_def)
    qed
  qed
  ultimately show ?thesis using assms by (simp add: dead_def)
qed

lemma dead_apply: "dead tok t \<Longrightarrow> dead tok (rt_apply env t op)"
  by (cases op) (simp_all only: dead_generate dead_revoke dead_revokeAll)

lemma dead_run: "dead tok t \<Longrightarrow> dead tok (rt_run env t ops)"
  unfolding rt_run_def by (induction ops arbitrary: t) (simp_all add: dead_apply)

lemma dead_refresh_fails:
  assumes "dead tok (refresh_tokens s)" and "tok \<noteq> []"
  shows "refreshToken env s now buffer (Some tok) = (Failure 401 ''Invalid or expired refresh token'', s)"
  using assms by (intro refreshToken_revoked_fails) (simp_all add: dead_def)

lemma dead_later_store_fails:
  assumes "dead tok (refresh_tokens s)" and "tok \<noteq> []"
  shows "refreshToken env (later_store env s ops us os) now buffer (Some tok)
     = (Failure 401 ''Invalid or expired refresh token'', later_store env s ops us os)"
proof -
  have "dead tok (refresh_tokens (later_store env s ops us os))"
    using dead_run [OF assms(1)] by (simp add: later_store_def)
  then show ?thesis using assms(2) by (rule dead_refresh_fails)
qed

lemma revokeAll_tokens:
  "token ` set (snd (revokeAllUserRefreshTokens t uid)) = token ` set t"
proof -
  have "map token (snd (revokeAllUserRefreshTokens t uid)) = map token t"
    by (simp add: revokeAllUserRefreshTokens_def comp_def if_distrib [of token] cong: if_cong)
  then show ?thesis by (metis set_map)
qed

subsection \<open>The verify-otp endpoint\<close>

text \<open>
  The handler \<open>verifyOTP\<close> around \<open>verifyOtp\<close>, its only caller: a valid code is consumed
  once, and a second submission is answered with 400. On an invalid or expired code the
  handler rolls its transaction back, so the \<open>isUsed\<close> update that \<open>verifyOtp\<close> made on an
  expired row is not kept; the expired code is refused again at any later time because it
  is still expired.
\<close>

lemma verifyOTP_invalid:
  assumes "code \<noteq> []" and "\<not> fst (verifyOtp (otps s) now (user_id u) code)"
  shows "verifyOTP env s now buffer u (Some code) = (Failure 400 ''Invalid or expired OTP'', s)"
proof -
  obtain ok ot where v: "verifyOtp (otps s) now (user_id u) code = (ok, ot)"
    by (cases "verifyOtp (otps s) now (user_id u) code")
  with assms(2) have "\<not> ok" by simp
  with v assms(1) show ?thesis by (simp add: verifyOTP_def falsy_def)
qed

lemma verifyOTP_valid:
  assumes "code \<noteq> []" and "verifyOtp (otps s) now (user_id u) code = (True, ot')"
    and "updateUser env (users s) (user_id u) (SetIsActive True) = Some us'"
    and "toString_hex buffer \<notin> token ` set (refresh_tokens s)"
  shows "verifyOTP env s now buffer u (Some code) =
    (Json 200
       \<lparr>res_error = False,
        res_message = ''OTP verification successful. Your account is now active.'',
        res_accessToken = Some \<lparr>payload = AccessPayload (user_id u) userTypes_user False,
                                 iat = now div 1000, exp = now div 1000 + 3600,
                                 signed_with = secret env\<rparr>,
        res_refreshToken = Some (toString_hex buffer),
        res_user = Some \<lparr>v_id = user_id u, v_username = username u, v_email = email u,
                          v_isActive = True\<rparr>,
        res_requireVerification = None\<rparr>,
     \<lparr>users = us',
      refresh_tokens = refresh_tokens s @
           [\<lparr>token = toString_hex buffer, rt_userId = user_id u,
             rt_expiresAt = setDate_plus env now 7, isRevoked = False\<rparr>],
      otps = ot'\<rparr>)"
  using assms
  by (simp add: verifyOTP_def falsy_def generateToken_1h generateRefreshToken_fresh)

lemma verifyOTP_accepts_once:
  assumes "code \<noteq> []" and "i < length (otps s)" and "otp_where (user_id u) code (otps s ! i)"
    and "now \<le> expiresAt (otps s ! i)"
    and "\<forall>j<length (otps s). j \<noteq> i \<longrightarrow> \<not> otp_where (user_id u) code (otps s ! j)"
    and "findUserById (users s) (user_id u) = Some u0"
    and "toString_hex buffer \<notin> token ` set (refresh_tokens s)"
    and "verifyOTP env s now buffer u (Some code) = (r, s')"
  shows "(\<exists>b. r = Json 200 b) \<and> otps s' = (otps s)[i := (otps s ! i)\<lparr>isUsed := True\<rparr>]
    \<and> verifyOTP env s' now' buffer' u (Some code) = (Failure 400 ''Invalid or expired OTP'', s')"
proof -
  have f: "Otp_findOne (otps s) (user_id u) code = Some (i, otps s ! i)"
    by (rule Otp_findOne_only [OF assms(2,3,5)])
  have v: "verifyOtp (otps s) now (user_id u) code = (True, (otps s)[i := (otps s ! i)\<lparr>isUsed := True\<rparr>])"
    using f assms(4) by (simp add: verifyOtp_def)
  from updateUser_found [OF assms(6)] obtain us' where
    up: "updateUser env (users s) (user_id u) (SetIsActive True) = Some us'" by blast
  from verifyOTP_valid [OF assms(1) v up assms(7)] assms(8)
  have r: "\<exists>b. r = Json 200 b" and o: "otps s' = (otps s)[i := (otps s ! i)\<lparr>isUsed := True\<rparr>]"
    by auto
  from burnt_no_match [OF assms(2,5)] have "\<forall>r \<in> set (otps s'). \<not> otp_where (user_id u) code r"
    unfolding o .
  then have "\<not> fst (verifyOtp (otps s') now' (user_id u) code)" by (simp add: verifyOtp_no_match)
  from verifyOTP_invalid [OF assms(1) this] r o show ?thesis by blast
qed

lemma verifyOTP_expired_rolled_back:
  assumes "code \<noteq> []" and "i < length (otps s)" and "otp_where (user_id u) code (otps s ! i)"
    and "expiresAt (otps s ! i) < now"
    and "\<forall>j<length (otps s). j \<noteq> i \<longrightarrow> \<not> otp_where (user_id u) code (otps s ! j)"
    and "now \<le> now'"
  shows "verifyOTP env s now buffer u (Some code) = (Failure 400 ''Invalid or expired OTP'', s)
    \<and> verifyOTP env s now' buffer' u (Some code) = (Failure 400 ''Invalid or expired OTP'', s)"
proof -
  have f: "Otp_findOne (otps s) (user_id u) code = Some (i, otps s ! i)"
    by (rule Otp_findOne_only [OF assms(2,3,5)])
  have "\<not> fst (verifyOtp (otps s) t (user_id u) code)" if "now \<le> t" for t
    using f assms(4) that by (simp add: verifyOtp_def)
  from verifyOTP_invalid [OF assms(1) this] assms(6) show ?thesis by simp
qed

text \<open>
  Claim C4: submitting an expired OTP burns it: \<open>verifyOtp\<close> marks the row used and returns
  failure, and the code stays unusable. \<open>verifyOtp\<close> does set \<open>isUsed\<close> on the expired row,
  but the handler that calls it answers 400 and rolls the transaction back: after the
  request the store is what it was and the row is still unused.
\<close>

theorem C4_burn_rolled_back:
  "verifyOtp (otps db_expired) 300001 (user_id bob) ''123456''
     = (False, [\<lparr>userId = ''u2'', otp = ''123456'', expiresAt = 300000, isUsed = True,
                 createdAt = 0\<rparr>])
   \<and> verifyOTP env0 db_expired 300001 drawn bob (Some ''123456'')
     = (Failure 400 ''Invalid or expired OTP'', db_expired)
   \<and> map isUsed (otps db_expired) = [False]"
proof -
  have v: "verifyOtp (otps db_expired) 300001 (user_id bob) ''123456''
     = (False, [\<lparr>userId = ''u2'', otp = ''123456'', expiresAt = 300000, isUsed = True,
                 createdAt = 0\<rparr>])"
    by (simp add: verifyOtp_def Otp_findOne_def otp_where_def db_expired_def bob_def)
  then have "\<not> fst (verifyOtp (otps db_expired) 300001 (user_id bob) ''123456'')" by simp
  then have "verifyOTP env0 db_expired 300001 drawn bob (Some ''123456'')
     = (Failure 400 ''Invalid or expired OTP'', db_expired)"
    by (intro verifyOTP_invalid) simp_all
  moreover have "map isUsed (otps db_expired) = [False]" by (simp add: db_expired_def)
  ultimately show ?thesis using v by blast
qed

text \<open>The definitions that evaluate a handler on the example store.\<close>

lemmas eval_defs = env0_def ana_def bob_def db0_def falsy_def verifyRefreshToken_def
  findUserById_def findUserByEmail_def verifyPassword_def userTypes_user_def
  generateToken_1h generateRefreshToken_def RefreshToken_create_def revokeRefreshToken_def
  revokeAllUserRefreshTokens_def toString_hex_def byte_hex_def hex_digit_def secret_def
  verifyToken_def updateUser_def message_only_def Let_def findOne_index.simps

subsection \<open>Rotation on refresh\<close>

text \<open>
  Claim C2: with the token column unique, a successful \<open>refreshToken\<close> call revokes the
  presented token, returns a new access token and a new refresh token that is stored and
  usable until its expiry, and any later refresh call that presents the same token string
  is answered with 401 \<open>Invalid or expired refresh token\<close> and changes nothing, right
  after the call and after any further writes to the refresh token table.
\<close>

theorem C2_refresh_token_single_use:
  assumes uniq: "distinct (map token (refresh_tokens s))"
    and ok: "refreshToken env s now buffer (Some tok) = (Json 200 b, s')"
  shows "(\<exists>r \<in> set (refresh_tokens s'). token r = tok)
     \<and> (\<forall>r \<in> set (refresh_tokens s'). token r = tok \<longrightarrow> isRevoked r)
     \<and> (\<exists>accessTok. res_accessToken b = Some accessTok \<and> ttl accessTok = 3600)
     \<and> res_refreshToken b = Some (toString_hex buffer)
     \<and> toString_hex buffer \<noteq> tok
     \<and> (\<forall>now'. now' \<le> setDate_plus env now 7 \<longrightarrow>
            verifyRefreshToken (refresh_tokens s') now' (toString_hex buffer) \<noteq> None)
     \<and> (\<forall>now' buffer'. refreshToken env s' now' buffer' (Some tok)
            = (Failure 401 ''Invalid or expired refresh token'', s'))
     \<and> (\<forall>ops us os now' buffer'.
            refreshToken env (later_store env s' ops us os) now' buffer' (Some tok)
              = (Failure 401 ''Invalid or expired refresh token'', later_store env s' ops us os))"
proof -
  from ok obtain tok' tokenDoc u where
    t: "Some tok = Some tok'" "tok' \<noteq> []"
    and d: "verifyRefreshToken (refresh_tokens s) now tok' = Some tokenDoc"
    and "findUserById (users s) (rt_userId tokenDoc) = Some u"
    and "roleId u = userTypes_user" "isActive u"
    and g: "generateRefreshToken env (snd (revokeRefreshToken (refresh_tokens s) tok')) now buffer (user_id u) None
       = Some (toString_hex buffer, refresh_tokens s')"
    and "s' = s\<lparr>refresh_tokens := refresh_tokens s'\<rparr>"
    and b: "b = \<lparr>res_error = False, res_message = ''Token refreshed'',
          res_accessToken = generateToken env now (user_id u) userTypes_user (Some ''1h'') None,
          res_refreshToken = Some (toString_hex buffer),
          res_user = None, res_requireVerification = None\<rparr>"
    by (rule refreshToken_Json)
  from t have [simp]: "tok' = tok" by simp
  let ?rev = "snd (revokeRefreshToken (refresh_tokens s) tok)"
  let ?new = "\<lparr>token = toString_hex buffer, rt_userId = user_id u,
                 rt_expiresAt = setDate_plus env now (int 7), isRevoked = False\<rparr>"
  from generateRefreshToken_Some [OF g]
  have fresh: "toString_hex buffer \<notin> token ` set ?rev" and s': "refresh_tokens s' = ?rev @ [?new]"
    by simp_all
  from verifyRefreshToken_Some [OF d] have mem: "tok \<in> token ` set (refresh_tokens s)" by auto
  have toks: "token ` set ?rev = token ` set (refresh_tokens s)"
    using revoke_tokens [of "refresh_tokens s" tok] by (metis set_map)
  from mem toks have mem': "tok \<in> token ` set ?rev" by simp
  with fresh have ne: "toString_hex buffer \<noteq> tok" by auto
  from mem' s' have 1: "\<exists>r \<in> set (refresh_tokens s'). token r = tok" by auto
  from revoke_revokes [OF uniq, of tok] ne s'
  have 2: "\<forall>r \<in> set (refresh_tokens s'). token r = tok \<longrightarrow> isRevoked r" by auto
  have 3: "\<exists>accessTok. res_accessToken b = Some accessTok \<and> ttl accessTok = 3600"
    by (simp add: b generateToken_1h ttl_def)
  have 4: "res_refreshToken b = Some (toString_hex buffer)" by (simp add: b)
  have "find (\<lambda>r. token r = toString_hex buffer \<and> \<not> isRevoked r) (?rev @ [?new]) = Some ?new"
  proof -
    from fresh have "find (\<lambda>r. token r = toString_hex buffer \<and> \<not> isRevoked r) ?rev = None"
      unfolding find_None_iff by (metis imageI)
    then show ?thesis by (simp add: find_snoc)
  qed
  then have 5: "\<forall>now'. now' \<le> setDate_plus env now 7 \<longrightarrow>
            verifyRefreshToken (refresh_tokens s') now' (toString_hex buffer) \<noteq> None"
    by (simp add: verifyRefreshToken_def s')
  have 6: "\<forall>now' buffer'. refreshToken env s' now' buffer' (Some tok)
            = (Failure 401 ''Invalid or expired refresh token'', s')"
    using refreshToken_revoked_fails [OF 2] t(2) by simp
  from mem' s' 2 have "dead tok (refresh_tokens s')" by (simp add: dead_def)
  from dead_later_store_fails [OF this] t(2)
  have 7: "\<forall>ops us os now' buffer'.
            refreshToken env (later_store env s' ops us os) now' buffer' (Some tok)
              = (Failure 401 ''Invalid or expired refresh token'', later_store env s' ops us os)"
    by simp
  from 1 2 3 4 ne 5 6 7 show ?thesis by blast
qed

theorem C2_refresh_token_single_use_witness:
  "fst (refreshToken env0 db0 1000 [205] (Some ''aa01'')) =
     Json 200 \<lparr>res_error = False, res_message = ''Token refreshed'',
       res_accessToken = Some \<lparr>payload = AccessPayload ''u1'' 2 False, iat = 1, exp = 3601,
                                signed_with = ''your-secret-key''\<rparr>,
       res_refreshToken = Some ''cd'', res_user = None, res_requireVerification = None\<rparr>
   \<and> refreshToken env0 (snd (refreshToken env0 db0 1000 [205] (Some ''aa01''))) 2000 [206] (Some ''aa01'')
       = (Failure 401 ''Invalid or expired refresh token'',
          snd (refreshToken env0 db0 1000 [205] (Some ''aa01'')))"
proof -
  let ?b = "\<lparr>res_error = False, res_message = ''Token refreshed'',
       res_accessToken = Some \<lparr>payload = AccessPayload ''u1'' 2 False, iat = 1, exp = 3601,
                                signed_with = ''your-secret-key''\<rparr>,
       res_refreshToken = Some ''cd'', res_user = None, res_requireVerification = None\<rparr>"
  let ?s' = "snd (refreshToken env0 db0 1000 [205] (Some ''aa01''))"
  have f: "fst (refreshToken env0 db0 1000 [205] (Some ''aa01'')) = Json 200 ?b"
    by (simp add: refreshToken_def eval_defs)
  then have e: "refreshToken env0 db0 1000 [205] (Some ''aa01'') = (Json 200 ?b, ?s')"
    by (simp add: prod_eq_iff)
  have u: "distinct (map token (refresh_tokens db0))" by (simp add: db0_def)
  from C2_refresh_token_single_use [OF u e]
  have "\<forall>now' buffer'. refreshToken env0 ?s' now' buffer' (Some ''aa01'')
            = (Failure 401 ''Invalid or expired refresh token'', ?s')"
    by (elim conjE)
  then have "refreshToken env0 ?s' 2000 [206] (Some ''aa01'')
            = (Failure 401 ''Invalid or expired refresh token'', ?s')" by blast
  with f show ?thesis by (rule conjI)
qed

subsection \<open>Password reset and password change\<close>

text \<open>
  Claim C6: after a successful \<open>resetPassword\<close> every refresh token row of the account has
  \<open>isRevoked = true\<close>, and a refresh call with any token the account held before the reset
  fails with 401 \<open>Invalid or expired refresh token\<close>.
\<close>

theorem C6_reset_revokes_all:
  assumes uniq: "distinct (map token (refresh_tokens s))"
    and ok: "resetPassword env s now body_token body_newPassword = (Json 200 b, s')"
  shows "\<exists>tok newPassword uid mail.
      body_token = Some tok \<and> body_newPassword = Some newPassword
    \<and> verifyToken env now tok = Some (ResetPayload uid mail)
    \<and> updateUser env (users s) uid (SetPassword newPassword) = Some (users s')
    \<and> (\<forall>r \<in> set (refresh_tokens s'). rt_userId r = uid \<longrightarrow> isRevoked r)
    \<and> (\<forall>r \<in> set (refresh_tokens s). rt_userId r = uid \<and> token r \<noteq> [] \<longrightarrow>
          (\<forall>now' buffer'. refreshToken env s' now' buffer' (Some (token r))
             = (Failure 401 ''Invalid or expired refresh token'', s')))
    \<and> (\<forall>r \<in> set (refresh_tokens s). rt_userId r = uid \<and> token r \<noteq> [] \<longrightarrow>
          (\<forall>ops us os now' buffer'.
             refreshToken env (later_store env s' ops us os) now' buffer' (Some (token r))
               = (Failure 401 ''Invalid or expired refresh token'', later_store env s' ops us os)))"
proof -
  from ok obtain tok newPassword uid mail u where
    t: "body_token = Some tok" "body_newPassword = Some newPassword"
    and p: "verifyToken env now tok = Some (ResetPayload uid mail)"
    and "findUserById (users s) uid = Some u" "email u = mail"
    and us: "updateUser env (users s) uid (SetPassword newPassword) = Some (users s')"
    and rt: "refresh_tokens s' = snd (revokeAllUserRefreshTokens (refresh_tokens s) uid)"
    and "otps s' = otps s"
    by (rule resetPassword_Json)
  have 1: "\<forall>r \<in> set (refresh_tokens s'). rt_userId r = uid \<longrightarrow> isRevoked r"
    unfolding rt by (rule revokeAll_revoked)
  have 2: "\<forall>r \<in> set (refresh_tokens s). rt_userId r = uid \<and> token r \<noteq> [] \<longrightarrow>
          (\<forall>now' buffer'. refreshToken env s' now' buffer' (Some (token r))
             = (Failure 401 ''Invalid or expired refresh token'', s'))"
  proof (intro ballI impI allI)
    fix r now' buffer'
    assume r: "r \<in> set (refresh_tokens s)" and "rt_userId r = uid \<and> token r \<noteq> []"
    then have o: "rt_userId r = uid" and ne: "token r \<noteq> []" by simp_all
    from revokeAll_old_tokens [OF uniq r o]
    have "\<forall>r' \<in> set (refresh_tokens s'). token r' = token r \<longrightarrow> isRevoked r'" unfolding rt .
    from refreshToken_revoked_fails [OF this ne]
    show "refreshToken env s' now' buffer' (Some (token r))
             = (Failure 401 ''Invalid or expired refresh token'', s')" .
  qed
  have 3: "\<forall>r \<in> set (refresh_tokens s). rt_userId r = uid \<and> token r \<noteq> [] \<longrightarrow>
          (\<forall>ops us os now' buffer'.
             refreshToken env (later_store env s' ops us os) now' buffer' (Some (token r))
               = (Failure 401 ''Invalid or expired refresh token'', later_store env s' ops us os))"
  proof (intro ballI impI allI)
    fix r ops us os now' buffer'
    assume r: "r \<in> set (refresh_tokens s)" and "rt_userId r = uid \<and> token r \<noteq> []"
    then have o: "rt_userId r = uid" and ne: "token r \<noteq> []" by simp_all
    from r have "token r \<in> token ` set (refresh_tokens s')" unfolding rt revokeAll_tokens by (rule imageI)
    moreover from revokeAll_old_tokens [OF uniq r o]
    have "\<forall>r' \<in> set (refresh_tokens s'). token r' = token r \<longrightarrow> isRevoked r'" unfolding rt .
    ultimately have "dead (token r) (refresh_tokens s')" by (simp add: dead_def)
    from dead_later_store_fails [OF this ne]
    show "refreshToken env (later_store env s' ops us os) now' buffer' (Some (token r))
               = (Failure 401 ''Invalid or expired refresh token'', later_store env s' ops us os)" .
  qed
  from t p us 1 2 3 show ?thesis by blast
qed

theorem C6_reset_revokes_all_witness:
  "fst (resetPassword env0 db0 5000 (Some ''reset-link-token'') (Some ''newpass'')) =
     Json 200 (message_only ''Password reset successful'')
   \<and> refreshToken env0 (snd (resetPassword env0 db0 5000 (Some ''reset-link-token'') (Some ''newpass'')))
         6000 [205] (Some ''bb02'')
       = (Failure 401 ''Invalid or expired refresh token'',
          snd (resetPassword env0 db0 5000 (Some ''reset-link-token'') (Some ''newpass'')))"
proof -
  let ?s' = "snd (resetPassword env0 db0 5000 (Some ''reset-link-token'') (Some ''newpass''))"
  let ?r = "\<lparr>token = ''bb02'', rt_userId = ''u1'', rt_expiresAt = 604800000, isRevoked = False\<rparr>"
  have f: "fst (resetPassword env0 db0 5000 (Some ''reset-link-token'') (Some ''newpass'')) =
     Json 200 (message_only ''Password reset successful'')"
    by (simp add: resetPassword_def eval_defs)
  then have e: "resetPassword env0 db0 5000 (Some ''reset-link-token'') (Some ''newpass'')
      = (Json 200 (message_only ''Password reset successful''), ?s')"
    by (simp add: prod_eq_iff)
  have u: "distinct (map token (refresh_tokens db0))" by (simp add: db0_def)
  have v: "verifyToken env0 5000 ''reset-link-token'' = Some (ResetPayload ''u1'' ''a@x.com'')"
    by (simp add: eval_defs)
  from C6_reset_revokes_all [OF u e] v
  have "\<forall>r \<in> set (refresh_tokens db0). rt_userId r = ''u1'' \<and> token r \<noteq> [] \<longrightarrow>
          (\<forall>now' buffer'. refreshToken env0 ?s' now' buffer' (Some (token r))
             = (Failure 401 ''Invalid or expired refresh token'', ?s'))"
    by auto
  moreover have "?r \<in> set (refresh_tokens db0)" by (simp add: db0_def)
  ultimately have "refreshToken env0 ?s' 6000 [205] (Some (token ?r))
             = (Failure 401 ''Invalid or expired refresh token'', ?s')"
    by (metis refresh_row.select_convs(1,2) list.distinct(1))
  then have "refreshToken env0 ?s' 6000 [205] (Some ''bb02'')
             = (Failure 401 ''Invalid or expired refresh token'', ?s')" by simp
  with f show ?thesis by (rule conjI)
qed

text \<open>
  Claim C10: a successful \<open>updatePassword\<close> replaces the stored password hash of the caller
  and nothing else: the refresh token table and the OTP table are as before, and every
  refresh call is answered as it would have been before the change.
\<close>

theorem C10_updatePassword_frame:
  assumes ok: "updatePassword env s req_user body_currentPassword body_newPassword = (Json 200 b, s')"
  shows "\<exists>newPassword i. body_newPassword = Some newPassword
    \<and> i < length (users s) \<and> user_id (users s ! i) = user_id req_user
    \<and> users s' = (users s)[i := (users s ! i)\<lparr>password := bcrypt_hash env newPassword\<rparr>]
    \<and> refresh_tokens s' = refresh_tokens s
    \<and> otps s' = otps s
    \<and> (\<forall>now buffer body_rt.
          fst (refreshToken env s' now buffer body_rt) = fst (refreshToken env s now buffer body_rt))"
proof -
  from ok obtain cur newPassword where
    t: "body_currentPassword = Some cur" "body_newPassword = Some newPassword" "newPassword \<noteq> []"
    by (cases body_currentPassword; cases body_newPassword)
       (auto simp: updatePassword_def falsy_def split: if_splits)
  from ok t obtain us' where
    up: "updateUser env (users s) (user_id req_user) (SetPassword newPassword) = Some us'"
    by (cases "updateUser env (users s) (user_id req_user) (SetPassword newPassword)")
       (auto simp: updatePassword_def falsy_def split: if_splits)
  from ok t up have s': "s' = s\<lparr>users := us'\<rparr>"
    by (auto simp: updatePassword_def falsy_def split: if_splits)
  then have rt: "refresh_tokens s' = refresh_tokens s" and ot: "otps s' = otps s"
    and u': "users s' = us'" by simp_all
  from up t(3) obtain i where
    i: "findOne_index (\<lambda>u. user_id u = user_id req_user) (users s) = Some i"
      "i < length (users s)" "user_id (users s ! i) = user_id req_user"
      "us' = (users s)[i := (users s ! i)\<lparr>password := bcrypt_hash env newPassword\<rparr>]"
    by (rule updateUser_password)
  from i(4) u' have 1: "users s' = (users s)[i := (users s ! i)\<lparr>password := bcrypt_hash env newPassword\<rparr>]"
    by simp
  from refreshToken_users_frame [OF rt i(1) 1]
  have 2: "\<forall>now buffer body_rt.
          fst (refreshToken env s' now buffer body_rt) = fst (refreshToken env s now buffer body_rt)"
    by blast
  from t(2) i(2,3) 1 rt ot 2 show ?thesis by blast
qed

lemma updatePassword_unknown_user:
  assumes "cur \<noteq> []" and "newPassword \<noteq> []"
    and "verifyPassword env cur (password req_user)"
    and "findOne_index (\<lambda>u. user_id u = user_id req_user) (users s) = None"
  shows "updatePassword env s req_user (Some cur) (Some newPassword) = (Failure 500 user_not_found, s)"
  using assms by (simp add: updatePassword_def falsy_def updateUser_def)

theorem C10_updatePassword_frame_witness:
  "fst (updatePassword env0 db0 ana (Some ''secret1'') (Some ''newpass'')) =
     Json 200 (message_only ''Password updated successfully'')
   \<and> refresh_tokens (snd (updatePassword env0 db0 ana (Some ''secret1'') (Some ''newpass'')))
       = refresh_tokens db0
   \<and> fst (refreshToken env0 (snd (updatePassword env0 db0 ana (Some ''secret1'') (Some ''newpass'')))
             1000 [205] (Some ''aa01''))
       = fst (refreshToken env0 db0 1000 [205] (Some ''aa01''))"
proof -
  let ?s' = "snd (updatePassword env0 db0 ana (Some ''secret1'') (Some ''newpass''))"
  have f: "fst (updatePassword env0 db0 ana (Some ''secret1'') (Some ''newpass'')) =
     Json 200 (message_only ''Password updated successfully'')"
    by (simp add: updatePassword_def eval_defs)
  then have e: "updatePassword env0 db0 ana (Some ''secret1'') (Some ''newpass'')
      = (Json 200 (message_only ''Password updated successfully''), ?s')"
    by (simp add: prod_eq_iff)
  from C10_updatePassword_frame [OF e]
  have "refresh_tokens ?s' = refresh_tokens db0"
    and "\<forall>now buffer body_rt.
          fst (refreshToken env0 ?s' now buffer body_rt) = fst (refreshToken env0 db0 now buffer body_rt)"
    by blast+
  with f show ?thesis by blast
qed

subsection \<open>Login on an inactive account\<close>

text \<open>
  Claim C7, as stated: login with correct credentials on an inactive account never returns
  an error. When the refresh token drawn for the login is already stored, the unique
  constraint rejects the insert, the handler rolls back and answers 500.
\<close>

theorem C7_login_token_collision:
  "findUserByEmail (users db_collide) ''b@x.com'' = Some bob
   \<and> verifyPassword env0 ''hunter2'' (password bob) \<and> \<not> isActive bob
   \<and> login env0 db_collide 1000 [15, 66, 64] drawn (Some ''b@x.com'') (Some ''hunter2'')
       = (Failure 500 unique_violation, db_collide)"
  by (simp add: login_def db_collide_def ana_def bob_def env0_def falsy_def findUserByEmail_def
      verifyPassword_def createOtp_def Let_def generateToken_1h generateRefreshToken_def
      RefreshToken_create_def)

text \<open>
  Claim C7, amended: login with the non-empty email and password of an inactive account
  answers 200 with \<open>requireVerification = true\<close>, a new one-hour access token and a new
  refresh token, and stores a new unused OTP row and the refresh token row for the
  account, unless the refresh token drawn is already stored; then the answer is 500 and
  nothing is stored.
\<close>

theorem C7_login_inactive:
  assumes "mail \<noteq> []" and "pw \<noteq> []"
    and "findUserByEmail (users s) mail = Some u"
    and "verifyPassword env pw (password u)"
    and "\<not> isActive u"
  shows "login env s now otp_buffer rt_buffer (Some mail) (Some pw) =
   (if toString_hex rt_buffer \<in> token ` set (refresh_tokens s)
    then (Failure 500 unique_violation, s)
    else
    (Json 200
       \<lparr>res_error = False,
        res_message = ''Account not activated. A verification OTP has been sent to your email.'',
        res_accessToken = Some \<lparr>payload = AccessPayload (user_id u) userTypes_user False,
                                 iat = now div 1000, exp = now div 1000 + 3600,
                                 signed_with = secret env\<rparr>,
        res_refreshToken = Some (toString_hex rt_buffer),
        res_user = Some \<lparr>v_id = user_id u, v_username = username u, v_email = email u,
                          v_isActive = False\<rparr>,
        res_requireVerification = Some True\<rparr>,
     s\<lparr>refresh_tokens := refresh_tokens s @
           [\<lparr>token = toString_hex rt_buffer, rt_userId = user_id u,
             rt_expiresAt = setDate_plus env now 7, isRevoked = False\<rparr>],
       otps := otps s @
           [\<lparr>userId = user_id u, otp = otp_code otp_buffer, expiresAt = setMinutes_plus env now 5,
             isUsed = False, createdAt = now\<rparr>]\<rparr>))"
  using assms
  by (simp add: login_def falsy_def createOtp_def Let_def generateToken_1h
      generateRefreshToken_def RefreshToken_create_def)

theorem C7_login_inactive_witness:
  "login env0 db0 1000 [15, 66, 64] [205] (Some ''b@x.com'') (Some ''hunter2'') =
    (Json 200
       \<lparr>res_error = False,
        res_message = ''Account not activated. A verification OTP has been sent to your email.'',
        res_accessToken = Some \<lparr>payload = AccessPayload (user_id bob) userTypes_user False,
                                 iat = 1000 div 1000, exp = 1000 div 1000 + 3600,
                                 signed_with = secret env0\<rparr>,
        res_refreshToken = Some (toString_hex [205]),
        res_user = Some \<lparr>v_id = user_id bob, v_username = username bob, v_email = email bob,
                          v_isActive = False\<rparr>,
        res_requireVerification = Some True\<rparr>,
     db0\<lparr>refresh_tokens := refresh_tokens db0 @
           [\<lparr>token = toString_hex [205], rt_userId = user_id bob,
             rt_expiresAt = setDate_plus env0 1000 7, isRevoked = False\<rparr>],
       otps := otps db0 @
           [\<lparr>userId = user_id bob, otp = otp_code [15, 66, 64], expiresAt = setMinutes_plus env0 1000 5,
             isUsed = False, createdAt = 1000\<rparr>]\<rparr>)"
proof -
  have fresh: "toString_hex [205] \<notin> token ` set (refresh_tokens db0)"
    by (simp add: eval_defs)
  have "''b@x.com'' \<noteq> []" and "''hunter2'' \<noteq> []"
    and "findUserByEmail (users db0) ''b@x.com'' = Some bob"
    and "verifyPassword env0 ''hunter2'' (password bob)" and "\<not> isActive bob"
    by (simp_all add: eval_defs)
  from C7_login_inactive [OF this, of 1000 "[15, 66, 64]" "[205]"] fresh
  show ?thesis by (simp only: if_False)
qed

end
